theory Spec2Isabelle
  imports Complex_Main "HOL-Library.Multiset"
begin

section \<open>Closed queueing network simulation: the model\<close>

text \<open>
  A shallow embedding of \<^verbatim>\<open>closed_queuing_network.py\<close>. Simulation times are Python
  floats in the source; they are modelled as real numbers (exact arithmetic). Objects that
  the source mutates in place are records that every operation returns updated. Exceptions
  are values of the type \<open>error\<close>; an operation that raises returns \<open>Inl\<close> of the error
  and the state it had partly updated is dropped, since nothing in the source catches it.
\<close>

datatype error = IndexError | KeyError | ValueError

datatype EventType = ARRIVAL | DEPARTURE

text \<open>
  The dataclass \<open>Event\<close>. Only \<open>time\<close> takes part in comparisons
  (\<^verbatim>\<open>field(compare=False)\<close> on the other fields). The fields \<open>job_id\<close> and
  \<open>station_id\<close> carry the prefix \<open>e_\<close> here, since \<open>Job\<close> and \<open>Station\<close>
  have fields of the same names.
\<close>

record Event =
  time :: real
  event_type :: EventType
  e_job_id :: nat
  e_station_id :: int

record Job =
  job_id :: nat
  arrival_time :: real
  completion_time :: real
  station_visits :: "(int \<times> real \<times> real) list"

text \<open>The class \<open>Station\<close>; its display name plays no part in the simulation and is left out.\<close>

record Station =
  station_id :: nat
  num_servers :: int
  mean_service_time :: real
  queue :: "nat list"
  servers_busy :: int
  total_arrivals :: int
  total_departures :: int
  total_queue_time :: real
  total_service_time :: real
  queue_length_sum :: real
  last_update_time :: real

text \<open>
  The random source. The source draws from numpy's process-wide generator
  (\<^verbatim>\<open>np.random\<close>), which is not code of this repository: its state is a value of an
  arbitrary type \<open>'g\<close>, and its three operations are parameters. \<open>seed_state s\<close> is
  the state \<^verbatim>\<open>np.random.seed(s)\<close> leaves; \<open>draw_exponential scale g\<close> and
  \<open>draw_choice n p g\<close> are the value drawn in state \<open>g\<close> and the state after the
  draw.
\<close>

record 'g random_source =
  seed_state :: "int \<Rightarrow> 'g"
  draw_exponential :: "real \<Rightarrow> 'g \<Rightarrow> real \<times> 'g"
  draw_choice :: "nat \<Rightarrow> real list \<Rightarrow> 'g \<Rightarrow> nat \<times> 'g"

text \<open>
  The class \<open>ClosedQueueingNetwork\<close>. The field \<open>rng\<close> is the state of numpy's
  process-wide generator, threaded through the operations that draw from it.
\<close>

record 'g ClosedQueueingNetwork =
  num_jobs :: int
  routing_matrix :: "real list list"
  num_stations :: nat
  stations :: "Station list"
  jobs :: "nat \<rightharpoonup> Job"
  event_queue :: "Event list"
  current_time :: real
  jobs_in_transit :: "nat set"
  total_completions :: int
  warmup_completions :: int
  rng :: 'g

subsection \<open>Python list indexing\<close>

text \<open>\<^verbatim>\<open>xs[i]\<close>: a negative index counts from the end; out of range raises IndexError.
  The result is the position read.\<close>

definition py_index :: "'a list \<Rightarrow> int \<Rightarrow> error + nat" where
  "py_index xs i =
     (let n = int (length xs)
      in if 0 \<le> i \<and> i < n then Inr (nat i)
         else if - n \<le> i \<and> i < 0 then Inr (nat (n + i))
         else Inl IndexError)"

subsection \<open>The standard library's heapq on a list of events\<close>

text \<open>
  \<^verbatim>\<open>heapq._siftdown(heap, startpos, pos)\<close>: the item at \<open>pos\<close> moves towards the root
  while it is smaller than its parent. \<open>siftdown_loop\<close> is the while loop, with
  \<open>newitem\<close> held aside as in the library.
\<close>

function siftdown_loop :: "Event list \<Rightarrow> nat \<Rightarrow> nat \<Rightarrow> Event \<Rightarrow> Event list" where
  "siftdown_loop heap startpos pos newitem =
     (if pos > startpos then
        (let parentpos = (pos - 1) div 2;
             parent = heap ! parentpos
         in if time newitem < time parent
            then siftdown_loop (heap[pos := parent]) startpos parentpos newitem
            else heap[pos := newitem])
      else heap[pos := newitem])"
  by pat_completeness auto
termination
  by (relation "measure (\<lambda>(heap, startpos, pos, newitem). pos)") auto

declare siftdown_loop.simps [simp del]

definition siftdown :: "Event list \<Rightarrow> nat \<Rightarrow> nat \<Rightarrow> Event list" where
  "siftdown heap startpos pos = siftdown_loop heap startpos pos (heap ! pos)"

text \<open>
  \<^verbatim>\<open>heapq._siftup(heap, pos)\<close>: the smaller child is moved up until a leaf is reached
  (\<open>siftup_loop\<close>, which returns the list and the position of the leaf), then the item
  is put there and sifted down.
\<close>

function siftup_loop :: "Event list \<Rightarrow> nat \<Rightarrow> nat \<Rightarrow> nat \<Rightarrow> Event list \<times> nat" where
  "siftup_loop heap endpos pos childpos =
     (if childpos < endpos then
        (let rightpos = childpos + 1;
             childpos' = (if rightpos < endpos \<and> \<not> time (heap ! childpos) < time (heap ! rightpos)
                          then rightpos else childpos)
         in siftup_loop (heap[pos := heap ! childpos']) endpos childpos' (2 * childpos' + 1))
      else (heap, pos))"
  by pat_completeness auto
termination
  by (relation "measure (\<lambda>(heap, endpos, pos, childpos). endpos - childpos)") auto

declare siftup_loop.simps [simp del]

definition siftup :: "Event list \<Rightarrow> nat \<Rightarrow> Event list" where
  "siftup heap pos =
     (let endpos = length heap;
          startpos = pos;
          newitem = heap ! pos;
          (heap', pos') = siftup_loop heap endpos pos (2 * pos + 1)
      in siftdown (heap'[pos' := newitem]) startpos pos')"

definition heappush :: "Event list \<Rightarrow> Event \<Rightarrow> Event list" where
  "heappush heap item = siftdown (heap @ [item]) 0 (length heap)"

text \<open>\<^verbatim>\<open>heapq.heappop\<close>: the popped event and the heap that remains; IndexError on an
  empty heap.\<close>

definition heappop :: "Event list \<Rightarrow> error + (Event \<times> Event list)" where
  "heappop heap =
     (if heap = [] then Inl IndexError
      else (let lastelt = last heap;
                heap' = butlast heap
            in if heap' \<noteq> [] then Inr (heap' ! 0, siftup (heap'[0 := lastelt]) 0)
               else Inr (lastelt, heap')))"

subsection \<open>Station\<close>

definition new_station :: "nat \<Rightarrow> int \<Rightarrow> real \<Rightarrow> Station" where
  "new_station sid n_servers mean =
     \<lparr>station_id = sid, num_servers = n_servers, mean_service_time = mean,
      queue = [], servers_busy = 0,
      total_arrivals = 0, total_departures = 0, total_queue_time = 0,
      total_service_time = 0, queue_length_sum = 0, last_update_time = 0\<rparr>"

definition is_available :: "Station \<Rightarrow> bool" where
  "is_available st = (servers_busy st < num_servers st)"

definition update_queue_stats :: "Station \<Rightarrow> real \<Rightarrow> Station" where
  "update_queue_stats st now =
     (let st1 = (if last_update_time st > 0
                 then (let time_delta = now - last_update_time st
                       in st\<lparr>queue_length_sum :=
                               queue_length_sum st + real (length (queue st)) * time_delta\<rparr>)
                 else st)
      in st1\<lparr>last_update_time := now\<rparr>)"

definition add_to_queue :: "Station \<Rightarrow> nat \<Rightarrow> real \<Rightarrow> Station" where
  "add_to_queue st j now =
     (let st1 = update_queue_stats st now;
          st2 = st1\<lparr>queue := queue st1 @ [j]\<rparr>
      in st2\<lparr>total_arrivals := total_arrivals st2 + 1\<rparr>)"

text \<open>\<open>start_service\<close> returns the job taken from the head of the queue (or \<open>None\<close>)
  and the station.\<close>

definition start_service :: "Station \<Rightarrow> real \<Rightarrow> nat option \<times> Station" where
  "start_service st now =
     (let st1 = update_queue_stats st now
      in if queue st1 \<noteq> [] \<and> is_available st1
         then (Some (hd (queue st1)),
               st1\<lparr>queue := tl (queue st1), servers_busy := servers_busy st1 + 1\<rparr>)
         else (None, st1))"

definition complete_service :: "Station \<Rightarrow> real \<Rightarrow> Station" where
  "complete_service st now =
     (let st1 = update_queue_stats st now;
          st2 = st1\<lparr>servers_busy := servers_busy st1 - 1\<rparr>
      in st2\<lparr>total_departures := total_departures st2 + 1\<rparr>)"

text \<open>
  \<^verbatim>\<open>np.random.exponential(scale)\<close> raises ValueError on a negative scale.
\<close>

definition generate_service_time ::
  "'g random_source \<Rightarrow> Station \<Rightarrow> 'g \<Rightarrow> error + (real \<times> 'g)" where
  "generate_service_time R st g =
     (if mean_service_time st < 0 then Inl ValueError
      else Inr (draw_exponential R (mean_service_time st) g))"

text \<open>
  The property \<open>utilization\<close>. A division by zero has no real value (numpy's float
  division gives an infinity or a NaN there); it is \<open>None\<close>.
\<close>

definition utilization :: "Station \<Rightarrow> real option" where
  "utilization st =
     (if total_service_time st = 0 then Some 0
      else if real_of_int (num_servers st) * last_update_time st = 0 then None
      else Some (total_service_time st / (real_of_int (num_servers st) * last_update_time st)))"

definition avg_queue_length :: "Station \<Rightarrow> real" where
  "avg_queue_length st =
     (if last_update_time st = 0 then 0
      else queue_length_sum st / last_update_time st)"

subsection \<open>ClosedQueueingNetwork\<close>

text \<open>
  \<open>init\<close> is \<^verbatim>\<open>__init__\<close>; its last argument is the state of the process-wide
  generator when the constructor is called. \<^verbatim>\<open>np.random.seed\<close> raises ValueError on a
  seed outside \<open>0 .. 2^32 - 1\<close>.
\<close>

definition init ::
  "'g random_source \<Rightarrow> int \<Rightarrow> real list list \<Rightarrow> int option \<Rightarrow> 'g
     \<Rightarrow> error + 'g ClosedQueueingNetwork" where
  "init R n_jobs matrix seed g =
     (case (case seed of
              None \<Rightarrow> Inr g
            | Some s \<Rightarrow> if s < 0 \<or> 2 ^ 32 \<le> s then Inl ValueError else Inr (seed_state R s)) of
        Inl e \<Rightarrow> Inl e
      | Inr g' \<Rightarrow>
          Inr \<lparr>num_jobs = n_jobs, routing_matrix = matrix, num_stations = length matrix,
               stations = [], jobs = Map.empty, event_queue = [], current_time = 0,
               jobs_in_transit = {}, total_completions = 0, warmup_completions = 0,
               rng = g'\<rparr>)"

text \<open>\<open>add_station\<close> returns the new station's id and the network.\<close>

definition add_station ::
  "'g ClosedQueueingNetwork \<Rightarrow> int \<Rightarrow> real \<Rightarrow> nat \<times> 'g ClosedQueueingNetwork" where
  "add_station net n_servers mean =
     (let sid = length (stations net);
          station = new_station sid n_servers mean
      in (sid, net\<lparr>stations := stations net @ [station]\<rparr>))"

definition new_job :: "nat \<Rightarrow> real \<Rightarrow> Job" where
  "new_job j t = \<lparr>job_id = j, arrival_time = t, completion_time = 0, station_visits = []\<rparr>"

definition schedule_event ::
  "'g ClosedQueueingNetwork \<Rightarrow> real \<Rightarrow> EventType \<Rightarrow> nat \<Rightarrow> int \<Rightarrow> 'g ClosedQueueingNetwork" where
  "schedule_event net t kind j sid =
     (let event = \<lparr>time = t, event_type = kind, e_job_id = j, e_station_id = sid\<rparr>
      in net\<lparr>event_queue := heappush (event_queue net) event\<rparr>)"

text \<open>The body of the loop of \<open>initialize_jobs\<close>, for one \<open>job_id\<close>.\<close>

definition initialize_job :: "int \<Rightarrow> nat \<Rightarrow> 'g ClosedQueueingNetwork \<Rightarrow> 'g ClosedQueueingNetwork" where
  "initialize_job initial_station j net =
     (let job = new_job j 0;
          net1 = net\<lparr>jobs := (jobs net)(j \<mapsto> job)\<rparr>;
          event = \<lparr>time = 0, event_type = ARRIVAL, e_job_id = j, e_station_id = initial_station\<rparr>
      in net1\<lparr>event_queue := heappush (event_queue net1) event\<rparr>)"

definition initialize_jobs :: "'g ClosedQueueingNetwork \<Rightarrow> int \<Rightarrow> 'g ClosedQueueingNetwork" where
  "initialize_jobs net initial_station =
     fold (initialize_job initial_station) [0..<nat (num_jobs net)] net"

text \<open>
  \<^verbatim>\<open>np.random.choice(a, p=probabilities)\<close> with an integer \<open>a\<close> raises ValueError
  when \<open>a\<close> is not positive, when \<open>p\<close> has another length, when an entry of \<open>p\<close> is
  negative, and when the entries do not sum to 1 within the tolerance
  \<open>sqrt(eps) = 2^-26\<close>.
\<close>

definition np_choice ::
  "'g random_source \<Rightarrow> nat \<Rightarrow> real list \<Rightarrow> 'g \<Rightarrow> error + (nat \<times> 'g)" where
  "np_choice R a p g =
     (if a = 0 \<or> length p \<noteq> a \<or> (\<exists>x \<in> set p. x < 0) \<or> \<bar>sum_list p - 1\<bar> > 1 / 2 ^ 26
      then Inl ValueError
      else Inr (draw_choice R a p g))"

definition get_next_station ::
  "'g random_source \<Rightarrow> 'g ClosedQueueingNetwork \<Rightarrow> int \<Rightarrow> error + (nat \<times> 'g)" where
  "get_next_station R net current_station =
     (case py_index (routing_matrix net) current_station of
        Inl e \<Rightarrow> Inl e
      | Inr i \<Rightarrow> np_choice R (num_stations net) (routing_matrix net ! i) (rng net))"

text \<open>
  The two handlers. \<open>i\<close> is the position of the event's station in \<open>stations\<close>.
  Where the source updates a station or a job object in place, the updated record is
  written back at the end of the branch.
\<close>

definition process_arrival ::
  "'g random_source \<Rightarrow> 'g ClosedQueueingNetwork \<Rightarrow> Event \<Rightarrow> error + 'g ClosedQueueingNetwork" where
  "process_arrival R net event =
     (case py_index (stations net) (e_station_id event) of
        Inl e \<Rightarrow> Inl e
      | Inr i \<Rightarrow>
          (case jobs net (e_job_id event) of
             None \<Rightarrow> Inl KeyError
           | Some job \<Rightarrow>
               (let net1 = net\<lparr>jobs_in_transit := jobs_in_transit net - {e_job_id event}\<rparr>;
                    arrival_time = time event;
                    station1 = add_to_queue (stations net ! i) (e_job_id event) (current_time net)
                in if is_available station1 then
                     (case start_service station1 (current_time net) of
                        (None, station2) \<Rightarrow> Inr (net1\<lparr>stations := (stations net)[i := station2]\<rparr>)
                      | (Some job_to_serve, station2) \<Rightarrow>
                          (case generate_service_time R station2 (rng net) of
                             Inl e \<Rightarrow> Inl e
                           | Inr (service_time, g') \<Rightarrow>
                               (let departure_time = current_time net + service_time;
                                    station3 = station2\<lparr>total_service_time :=
                                                 total_service_time station2 + service_time\<rparr>;
                                    job' = job\<lparr>station_visits := station_visits job
                                             @ [(e_station_id event, arrival_time, departure_time)]\<rparr>;
                                    net2 = net1\<lparr>stations := (stations net)[i := station3],
                                               jobs := (jobs net)(e_job_id event \<mapsto> job'),
                                               rng := g'\<rparr>
                                in Inr (schedule_event net2 departure_time DEPARTURE job_to_serve
                                          (e_station_id event)))))
                   else Inr (net1\<lparr>stations := (stations net)[i := station1]\<rparr>))))"

definition process_departure ::
  "'g random_source \<Rightarrow> 'g ClosedQueueingNetwork \<Rightarrow> Event \<Rightarrow> error + 'g ClosedQueueingNetwork" where
  "process_departure R net event =
     (case py_index (stations net) (e_station_id event) of
        Inl e \<Rightarrow> Inl e
      | Inr i \<Rightarrow>
          (case jobs net (e_job_id event) of
             None \<Rightarrow> Inl KeyError
           | Some job \<Rightarrow>
               (let station1 = complete_service (stations net ! i) (current_time net);
                    net1 = net\<lparr>stations := (stations net)[i := station1],
                               total_completions := total_completions net + 1\<rparr>
                in case (if queue station1 \<noteq> [] then
                           (case start_service station1 (current_time net1) of
                              (None, station2) \<Rightarrow> Inr (net1\<lparr>stations := (stations net1)[i := station2]\<rparr>)
                            | (Some job_to_serve, station2) \<Rightarrow>
                                (case generate_service_time R station2 (rng net1) of
                                   Inl e \<Rightarrow> Inl e
                                 | Inr (service_time, g') \<Rightarrow>
                                     (let departure_time = current_time net1 + service_time;
                                          station3 = station2\<lparr>total_service_time :=
                                                       total_service_time station2 + service_time\<rparr>
                                      in case jobs net1 job_to_serve of
                                           None \<Rightarrow> Inl KeyError
                                         | Some next_job \<Rightarrow>
                                             (let next_job' = next_job\<lparr>station_visits :=
                                                      station_visits next_job
                                                      @ [(e_station_id event, current_time net1,
                                                          departure_time)]\<rparr>;
                                                  net2 = net1\<lparr>stations := (stations net1)[i := station3],
                                                             jobs := (jobs net1)(job_to_serve \<mapsto> next_job'),
                                                             rng := g'\<rparr>
                                              in Inr (schedule_event net2 departure_time DEPARTURE
                                                        job_to_serve (e_station_id event))))))
                         else Inr net1) of
                     Inl e \<Rightarrow> Inl e
                   | Inr net2 \<Rightarrow>
                       (case get_next_station R net2 (e_station_id event) of
                          Inl e \<Rightarrow> Inl e
                        | Inr (next_station, g') \<Rightarrow>
                            (let net3 = net2\<lparr>jobs_in_transit := insert (e_job_id event) (jobs_in_transit net2),
                                            rng := g'\<rparr>
                             in Inr (schedule_event net3 (current_time net3) ARRIVAL
                                       (e_job_id event) (int next_station)))))))"

definition reset_statistics_station :: "real \<Rightarrow> Station \<Rightarrow> Station" where
  "reset_statistics_station now st =
     st\<lparr>total_arrivals := 0, total_departures := 0, total_queue_time := 0,
        total_service_time := 0, queue_length_sum := 0, last_update_time := now\<rparr>"

definition reset_statistics :: "'g ClosedQueueingNetwork \<Rightarrow> 'g ClosedQueueingNetwork" where
  "reset_statistics net =
     net\<lparr>stations := map (reset_statistics_station (current_time net)) (stations net),
         total_completions := 0, warmup_completions := 0\<rparr>"

subsection \<open>The run loop\<close>

text \<open>
  The state of the loop of \<open>run\<close>: the network, the local flag \<open>warmup_done\<close>, and
  the events popped so far in the order they were processed. The source keeps no such
  list; it is recorded here so that properties of the event sequence can be stated.
\<close>

type_synonym 'g run_state = "'g ClosedQueueingNetwork \<times> bool \<times> Event list"

definition loop_condition :: "real \<Rightarrow> 'g run_state \<Rightarrow> bool" where
  "loop_condition simulation_time s =
     (case s of (net, warmup_done, processed) \<Rightarrow>
        event_queue net \<noteq> [] \<and> current_time net < simulation_time)"

text \<open>One pass through the body of the while loop.\<close>

definition run_iteration ::
  "'g random_source \<Rightarrow> real \<Rightarrow> 'g run_state \<Rightarrow> error + 'g run_state" where
  "run_iteration R warmup_time s =
     (case s of (net, warmup_done, processed) \<Rightarrow>
        (case heappop (event_queue net) of
           Inl e \<Rightarrow> Inl e
         | Inr (event, rest) \<Rightarrow>
             (let net1 = net\<lparr>event_queue := rest, current_time := time event\<rparr>;
                  reset = (\<not> warmup_done \<and> current_time net1 \<ge> warmup_time);
                  net2 = (if reset then reset_statistics net1 else net1);
                  warmup_done' = (if reset then True else warmup_done)
              in case (case event_type event of
                         ARRIVAL \<Rightarrow> process_arrival R net2 event
                       | DEPARTURE \<Rightarrow> process_departure R net2 event) of
                   Inl e \<Rightarrow> Inl e
                 | Inr net3 \<Rightarrow> Inr (net3, warmup_done', processed @ [event]))))"

text \<open>
  The while loop. It need not end (with service times of zero the clock never
  advances), so it is a partial function: \<open>None\<close> is a run that does not return,
  \<open>Some (Inl e)\<close> a run that raised \<open>e\<close>, \<open>Some (Inr s)\<close> a run that returned
  in state \<open>s\<close>.
\<close>

partial_function (option) run_loop ::
  "'g random_source \<Rightarrow> real \<Rightarrow> real \<Rightarrow> 'g run_state \<Rightarrow> (error + 'g run_state) option" where
  "run_loop R simulation_time warmup_time s =
     (if loop_condition simulation_time s then
        (case run_iteration R warmup_time s of
           Inl e \<Rightarrow> Some (Inl e)
         | Inr s' \<Rightarrow> run_loop R simulation_time warmup_time s')
      else Some (Inr s))"

definition run ::
  "'g random_source \<Rightarrow> 'g ClosedQueueingNetwork \<Rightarrow> real \<Rightarrow> real
     \<Rightarrow> (error + 'g run_state) option" where
  "run R net simulation_time warmup_time =
     run_loop R simulation_time warmup_time (net, False, [])"

subsection \<open>The drivers' call sequence\<close>

text \<open>
  Every caller in the repository (the two examples, the tests, the WIP sweep) uses the
  engine in the same way: construct the network, add the stations one by one, call
  \<open>initialize_jobs\<close>, call \<open>run\<close>. \<open>build\<close> is that sequence up to
  \<open>initialize_jobs\<close> and \<open>simulate\<close> the whole of it; a station is given by its
  server count and its mean service time.
\<close>

definition add_stations ::
  "'g ClosedQueueingNetwork \<Rightarrow> (int \<times> real) list \<Rightarrow> 'g ClosedQueueingNetwork" where
  "add_stations net specs =
     fold (\<lambda>(n_servers, mean) n. snd (add_station n n_servers mean)) specs net"

definition build ::
  "'g random_source \<Rightarrow> int \<Rightarrow> real list list \<Rightarrow> int option \<Rightarrow> (int \<times> real) list \<Rightarrow> int \<Rightarrow> 'g
     \<Rightarrow> error + 'g ClosedQueueingNetwork" where
  "build R n_jobs matrix seed specs initial_station g =
     (case init R n_jobs matrix seed g of
        Inl e \<Rightarrow> Inl e
      | Inr net \<Rightarrow> Inr (initialize_jobs (add_stations net specs) initial_station))"

definition simulate ::
  "'g random_source \<Rightarrow> int \<Rightarrow> real list list \<Rightarrow> int option \<Rightarrow> (int \<times> real) list \<Rightarrow> int
     \<Rightarrow> real \<Rightarrow> real \<Rightarrow> 'g \<Rightarrow> (error + 'g run_state) option" where
  "simulate R n_jobs matrix seed specs initial_station simulation_time warmup_time g =
     (case build R n_jobs matrix seed specs initial_station g of
        Inl e \<Rightarrow> Some (Inl e)
      | Inr net \<Rightarrow> run R net simulation_time warmup_time)"

text \<open>
  The states of the loop of \<open>run\<close> called on \<open>net0\<close>: the state at the call, and
  the state after every pass through the body that did not raise.
\<close>

inductive reachable ::
  "'g random_source \<Rightarrow> real \<Rightarrow> real \<Rightarrow> 'g ClosedQueueingNetwork \<Rightarrow> 'g run_state \<Rightarrow> bool"
  for R :: "'g random_source" and simulation_time :: real and warmup_time :: real
    and net0 :: "'g ClosedQueueingNetwork" where
  at_call: "reachable R simulation_time warmup_time net0 (net0, False, [])"
| after_iteration:
    "reachable R simulation_time warmup_time net0 s \<Longrightarrow>
     loop_condition simulation_time s \<Longrightarrow>
     run_iteration R warmup_time s = Inr s' \<Longrightarrow>
     reachable R simulation_time warmup_time net0 s'"

text \<open>
  The first \<open>n\<close> passes of the loop (fewer when the loop ends before): the state they
  leave, or the error one of them raised.
\<close>

fun run_steps ::
  "'g random_source \<Rightarrow> real \<Rightarrow> real \<Rightarrow> nat \<Rightarrow> 'g run_state \<Rightarrow> error + 'g run_state" where
  "run_steps R simulation_time warmup_time 0 s = Inr s"
| "run_steps R simulation_time warmup_time (Suc n) s =
     (if loop_condition simulation_time s then
        (case run_iteration R warmup_time s of
           Inl e \<Rightarrow> Inl e
         | Inr s' \<Rightarrow> run_steps R simulation_time warmup_time n s')
      else Inr s)"

text \<open>
  The network on which the handler of a popped event runs: the event is off the queue,
  the clock is at the event's time, and the statistics have been reset if this event ends
  the warmup. It names an intermediate state of \<open>run_iteration\<close>.
\<close>

definition handler_input ::
  "real \<Rightarrow> 'g ClosedQueueingNetwork \<Rightarrow> bool \<Rightarrow> Event \<Rightarrow> Event list \<Rightarrow> 'g ClosedQueueingNetwork" where
  "handler_input warmup_time net warmup_done event rest =
     (let net1 = net\<lparr>event_queue := rest, current_time := time event\<rparr>
      in if \<not> warmup_done \<and> current_time net1 \<ge> warmup_time
         then reset_statistics net1 else net1)"

section \<open>The vocabulary of the properties\<close>

subsection \<open>Stations\<close>

text \<open>
  A station is in order when a job waits only if no server is free, and no more servers
  are busy than the station has (for a station with a server count that is not negative).
\<close>

definition station_ok :: "Station \<Rightarrow> bool" where
  "station_ok st =
     ((queue st \<noteq> [] \<longrightarrow> \<not> is_available st)
      \<and> (0 \<le> num_servers st \<longrightarrow> servers_busy st \<le> num_servers st))"

subsection \<open>The heap\<close>

text \<open>
  The heap invariant of heapq on the event times: no event is earlier than its parent.
  \<open>heap_with_hole h pos\<close> is what holds while an item is sifted: the invariant
  wherever position \<open>pos\<close> is not involved, and no child of \<open>pos\<close> is earlier than
  the parent of \<open>pos\<close>. \<open>children_ge h pos new\<close>: no child of \<open>pos\<close> is earlier
  than the item \<open>new\<close>.
\<close>

definition is_heap :: "Event list \<Rightarrow> bool" where
  "is_heap h = (\<forall>i<length h. 0 < i \<longrightarrow> time (h ! ((i - 1) div 2)) \<le> time (h ! i))"

definition heap_with_hole :: "Event list \<Rightarrow> nat \<Rightarrow> bool" where
  "heap_with_hole h pos =
     (pos < length h
      \<and> (\<forall>i<length h. 0 < i \<longrightarrow> i \<noteq> pos \<longrightarrow> (i - 1) div 2 \<noteq> pos \<longrightarrow>
             time (h ! ((i - 1) div 2)) \<le> time (h ! i))
      \<and> (\<forall>c<length h. 0 < c \<longrightarrow> (c - 1) div 2 = pos \<longrightarrow> 0 < pos \<longrightarrow>
             time (h ! ((pos - 1) div 2)) \<le> time (h ! c)))"

definition children_ge :: "Event list \<Rightarrow> nat \<Rightarrow> Event \<Rightarrow> bool" where
  "children_ge h pos new =
     (\<forall>c<length h. 0 < c \<longrightarrow> (c - 1) div 2 = pos \<longrightarrow> time new \<le> time (h ! c))"

subsection \<open>Work in process\<close>

text \<open>
  \<open>wip\<close> is the sum the specification calls work in process: over all stations,
  the busy servers plus the queue length, plus the number of jobs in transit.
  \<open>pending_initial_arrivals\<close> counts the pending arrival events whose job is not
  marked as in transit; these are the arrivals that \<open>initialize_jobs\<close> scheduled and
  the loop has not processed yet.
\<close>

definition jobs_at_stations :: "'g ClosedQueueingNetwork \<Rightarrow> int" where
  "jobs_at_stations net = (\<Sum>st\<leftarrow>stations net. servers_busy st + int (length (queue st)))"

definition wip :: "'g ClosedQueueingNetwork \<Rightarrow> int" where
  "wip net = jobs_at_stations net + int (card (jobs_in_transit net))"

definition pending_initial_arrivals :: "'g ClosedQueueingNetwork \<Rightarrow> nat" where
  "pending_initial_arrivals net =
     length (filter (\<lambda>e. event_type e = ARRIVAL \<and> e_job_id e \<notin> jobs_in_transit net)
               (event_queue net))"

text \<open>
  For the proof: the job ids in the queues of the stations, the job ids of the pending
  events together with those in the queues, the pending arrival events, and the invariant
  that ties them to the population.
\<close>

definition queued_jobs :: "'g ClosedQueueingNetwork \<Rightarrow> nat multiset" where
  "queued_jobs net = (\<Sum>st\<leftarrow>stations net. mset (queue st))"

definition job_places :: "'g ClosedQueueingNetwork \<Rightarrow> nat multiset" where
  "job_places net = image_mset e_job_id (mset (event_queue net)) + queued_jobs net"

definition pending_arrivals :: "'g ClosedQueueingNetwork \<Rightarrow> Event list" where
  "pending_arrivals net = filter (\<lambda>e. event_type e = ARRIVAL) (event_queue net)"

definition tracked :: "'g ClosedQueueingNetwork \<Rightarrow> bool" where
  "tracked net =
     (job_places net = mset [0..<nat (num_jobs net)]
      \<and> jobs_in_transit net \<subseteq> e_job_id ` set (pending_arrivals net)
      \<and> jobs_at_stations net + int (length (pending_arrivals net)) = int (nat (num_jobs net)))"

text \<open>
  The arrivals that \<open>initialize_jobs\<close> scheduled are all at time 0: a pending
  arrival whose job is not marked as in transit has time 0.
\<close>

definition initial_arrivals_at_zero :: "'g ClosedQueueingNetwork \<Rightarrow> bool" where
  "initial_arrivals_at_zero net =
     (\<forall>e \<in> set (event_queue net).
        event_type e = ARRIVAL \<longrightarrow> e_job_id e \<notin> jobs_in_transit net \<longrightarrow> time e = 0)"

subsection \<open>Time\<close>

text \<open>
  What is assumed of numpy's exponential sampler: on a scale that is not negative it
  returns a duration that is not negative. \<open>timely\<close> is the invariant of the loop:
  the pending events form a heap and none is earlier than the clock, the events processed
  so far are in the order of their times, none is later than the clock, and the clock is
  the time of the last one.
\<close>

definition nonnegative_draws :: "'g random_source \<Rightarrow> bool" where
  "nonnegative_draws R = (\<forall>scale g. 0 \<le> scale \<longrightarrow> 0 \<le> fst (draw_exponential R scale g))"

definition timely :: "'g run_state \<Rightarrow> bool" where
  "timely s =
     (case s of (net, warmup_done, processed) \<Rightarrow>
        is_heap (event_queue net)
        \<and> (\<forall>e \<in> set (event_queue net). current_time net \<le> time e)
        \<and> sorted (map time processed)
        \<and> (\<forall>e \<in> set processed. time e \<le> current_time net)
        \<and> (processed \<noteq> [] \<longrightarrow> current_time net = time (last processed)))"

section \<open>Example inputs\<close>

text \<open>
  A random source for the examples: its state counts the draws made, the \<open>g\<close>-th draw
  of a service time is \<open>scale * e g\<close> and the \<open>g\<close>-th routing draw is \<open>c g\<close>.
\<close>

definition table_source :: "(nat \<Rightarrow> real) \<Rightarrow> (nat \<Rightarrow> nat) \<Rightarrow> nat random_source" where
  "table_source e c =
     \<lparr>seed_state = nat,
      draw_exponential = (\<lambda>scale g. (scale * e g, Suc g)),
      draw_choice = (\<lambda>n p g. (c g, Suc g))\<rparr>"

definition example_station :: Station where
  "example_station =
     \<lparr>station_id = 0, num_servers = 1, mean_service_time = 1,
      queue = [7], servers_busy = 1,
      total_arrivals = 2, total_departures = 1, total_queue_time = 0,
      total_service_time = 3, queue_length_sum = 0, last_update_time = 0\<rparr>"

definition example_network :: "nat ClosedQueueingNetwork" where
  "example_network =
     \<lparr>num_jobs = 2, routing_matrix = [[1]], num_stations = 1,
      stations = [example_station\<lparr>queue_length_sum := 4, last_update_time := 6\<rparr>],
      jobs = [3 \<mapsto> new_job 3 0, 7 \<mapsto> new_job 7 0],
      event_queue = [\<lparr>time = 12, event_type = DEPARTURE, e_job_id = 3, e_station_id = 0\<rparr>],
      current_time = 6, jobs_in_transit = {}, total_completions = 1, warmup_completions = 0,
      rng = 0\<rparr>"

definition example_arrival :: Event where
  "example_arrival = \<lparr>time = 6, event_type = ARRIVAL, e_job_id = 7, e_station_id = 0\<rparr>"

definition example_departure :: Event where
  "example_departure = \<lparr>time = 12, event_type = DEPARTURE, e_job_id = 3, e_station_id = 0\<rparr>"

section \<open>Evaluation of the model on concrete inputs\<close>

lemmas model_defs =
  table_source_def add_stations_def build_def simulate_def init_def add_station_def
  new_station_def initialize_jobs_def initialize_job_def new_job_def
  heappush_def heappop_def siftdown_def siftup_def siftdown_loop.simps siftup_loop.simps
  run_def run_loop.simps loop_condition_def run_iteration_def
  reset_statistics_def reset_statistics_station_def
  process_arrival_def process_departure_def schedule_event_def
  get_next_station_def np_choice_def generate_service_time_def py_index_def
  add_to_queue_def start_service_def complete_service_def update_queue_stats_def
  is_available_def utilization_def avg_queue_length_def Let_def upt_rec

section \<open>The heap operations\<close>

subsection \<open>They keep the events\<close>

lemma length_siftdown_loop [simp]:
  "length (siftdown_loop heap startpos pos newitem) = length heap"
  by (induction heap startpos pos newitem rule: siftdown_loop.induct)
     (subst siftdown_loop.simps, simp add: Let_def)

lemma mset_siftdown_loop:
  "pos < length heap \<Longrightarrow>
   mset (siftdown_loop heap startpos pos newitem) = mset (heap[pos := newitem])"
proof (induction heap startpos pos newitem rule: siftdown_loop.induct)
  case (1 heap startpos pos newitem)
  let ?pp = "(pos - 1) div 2"
  show ?case
  proof (cases "pos > startpos \<and> time newitem < time (heap ! ?pp)")
    case False
    then show ?thesis by (subst siftdown_loop.simps) (auto simp: Let_def)
  next
    case True
    then have pp: "?pp < pos" by auto
    with "1.prems" have ppl: "?pp < length heap" by simp
    have "siftdown_loop heap startpos pos newitem
            = siftdown_loop (heap[pos := heap ! ?pp]) startpos ?pp newitem"
      using True by (subst siftdown_loop.simps) (simp add: Let_def)
    also have "mset \<dots> = mset (heap[pos := heap ! ?pp, ?pp := newitem])"
      using True ppl "1.IH"[of ?pp "heap ! ?pp"] by simp
    also have "\<dots> = mset (heap[pos := newitem])"
      using pp ppl "1.prems" by (simp add: mset_update nth_list_update)
    finally show ?thesis .
  qed
qed

lemma mset_heappush [simp]: "mset (heappush heap item) = add_mset item (mset heap)"
  by (simp add: heappush_def siftdown_def mset_siftdown_loop)

lemma siftup_loop_props:
  "siftup_loop heap endpos pos childpos = (heap', pos') \<Longrightarrow> endpos = length heap \<Longrightarrow>
   pos < length heap \<Longrightarrow> pos < childpos \<Longrightarrow>
   length heap' = length heap \<and> pos' < length heap
     \<and> mset (heap'[pos' := x]) = mset (heap[pos := x])"
proof (induction heap endpos pos childpos arbitrary: heap' pos' rule: siftup_loop.induct)
  case (1 heap endpos pos childpos)
  show ?case
  proof (cases "childpos < endpos")
    case False
    with "1.prems" show ?thesis by (subst (asm) siftup_loop.simps) simp
  next
    case True
    define c where "c = (if childpos + 1 < endpos \<and> \<not> time (heap ! childpos) < time (heap ! (childpos + 1))
                          then childpos + 1 else childpos)"
    have c: "c < length heap" "pos < c" using True "1.prems" by (auto simp: c_def)
    have step: "siftup_loop (heap[pos := heap ! c]) endpos c (2 * c + 1) = (heap', pos')"
      using "1.prems"(1) True by (subst (asm) siftup_loop.simps) (auto simp: Let_def c_def)
    have IH: "length heap' = length (heap[pos := heap ! c]) \<and> pos' < length (heap[pos := heap ! c])
                \<and> mset (heap'[pos' := x]) = mset (heap[pos := heap ! c, c := x])"
      using "1.IH"[OF True refl c_def step] "1.prems" c
      by (simp add: c_def)
    have "mset (heap[pos := heap ! c, c := x]) = mset (heap[pos := x])"
      using c "1.prems" by (simp add: mset_update nth_list_update)
    with IH show ?thesis by simp
  qed
qed

lemma mset_siftup: "pos < length heap \<Longrightarrow> mset (siftup heap pos) = mset heap"
proof -
  assume pos: "pos < length heap"
  obtain heap' pos' where l: "siftup_loop heap (length heap) pos (2 * pos + 1) = (heap', pos')"
    by (cases "siftup_loop heap (length heap) pos (2 * pos + 1)")
  from siftup_loop_props[OF l refl pos, of "heap ! pos"]
  have "length heap' = length heap" "pos' < length heap"
       "mset (heap'[pos' := heap ! pos]) = mset heap"
    by simp_all
  then show ?thesis
    using l by (simp add: siftup_def siftdown_def Let_def mset_siftdown_loop)
qed

lemma mset_heappop:
  "heappop heap = Inr (item, rest) \<Longrightarrow> mset heap = add_mset item (mset rest)"
proof -
  assume pop: "heappop heap = Inr (item, rest)"
  then have ne: "heap \<noteq> []" by (auto simp: heappop_def split: if_splits)
  show ?thesis
  proof (cases "butlast heap = []")
    case True
    with pop ne have "item = last heap" "rest = []" by (auto simp: heappop_def Let_def)
    moreover from True ne have "heap = [last heap]"
      by (metis append_butlast_last_id append_Nil)
    ultimately show ?thesis by (metis mset.simps(1) mset.simps(2))
  next
    case False
    with pop ne have item: "item = butlast heap ! 0"
      and rest: "rest = siftup ((butlast heap)[0 := last heap]) 0"
      by (auto simp: heappop_def Let_def)
    from False have bl: "0 < length (butlast heap)"
      by (metis length_greater_0_conv)
    then have "mset rest = mset ((butlast heap)[0 := last heap])"
      unfolding rest by (intro mset_siftup) (simp only: length_list_update)
    also have "\<dots> = add_mset (last heap) (mset (butlast heap) - {#item#})"
      using bl by (simp add: mset_update item)
    finally have "add_mset item (mset rest) = add_mset (last heap) (mset (butlast heap))"
      using bl item by (simp add: nth_mem)
    also have "\<dots> = mset (butlast heap @ [last heap])" by simp
    also have "\<dots> = mset heap" using ne by simp
    finally show ?thesis by simp
  qed
qed

lemma set_heappush [simp]: "set (heappush heap item) = insert item (set heap)"
proof -
  have "set_mset (mset (heappush heap item)) = set_mset (add_mset item (mset heap))" by simp
  then show ?thesis by (simp del: mset_heappush)
qed

lemma set_heappop: "heappop heap = Inr (item, rest) \<Longrightarrow> set heap = insert item (set rest)"
proof -
  assume "heappop heap = Inr (item, rest)"
  then have "set_mset (mset heap) = set_mset (add_mset item (mset rest))"
    using mset_heappop by simp
  then show ?thesis by simp
qed

lemma filter_heappush:
  "length (filter P (heappush heap item)) = length (filter P heap) + (if P item then 1 else 0)"
proof -
  have "length (filter P (heappush heap item)) = size (filter_mset P (mset (heappush heap item)))"
    by (metis mset_filter size_mset)
  also have "\<dots> = size (filter_mset P (mset heap)) + (if P item then 1 else 0)" by simp
  also have "size (filter_mset P (mset heap)) = length (filter P heap)"
    by (metis mset_filter size_mset)
  finally show ?thesis .
qed

lemma filter_heappop:
  assumes "heappop heap = Inr (item, rest)"
  shows "length (filter P heap) = length (filter P rest) + (if P item then 1 else 0)"
proof -
  have "length (filter P heap) = size (filter_mset P (mset heap))"
    by (metis mset_filter size_mset)
  also have "\<dots> = size (filter_mset P (mset rest)) + (if P item then 1 else 0)"
    by (simp add: mset_heappop[OF assms])
  also have "size (filter_mset P (mset rest)) = length (filter P rest)"
    by (metis mset_filter size_mset)
  finally show ?thesis .
qed

subsection \<open>They keep the heap invariant, and the root is the earliest event\<close>

lemma hole_exit:
  assumes "heap_with_hole h pos" "children_ge h pos new"
    and "0 < pos \<longrightarrow> time (h ! ((pos - 1) div 2)) \<le> time new"
  shows "is_heap (h[pos := new])"
  unfolding is_heap_def
proof (intro allI impI)
  fix i assume i: "i < length (h[pos := new])" "0 < i"
  then have il: "i < length h" by simp
  have pl: "(i - 1) div 2 < length h" using il by simp
  have pne: "(i - 1) div 2 \<noteq> i" using i by simp
  consider "i = pos" | "i \<noteq> pos" "(i - 1) div 2 = pos" | "i \<noteq> pos" "(i - 1) div 2 \<noteq> pos" by blast
  then show "time (h[pos := new] ! ((i - 1) div 2)) \<le> time (h[pos := new] ! i)"
  proof cases
    case 1
    with assms(3) i il pne show ?thesis by (simp add: nth_list_update)
  next
    case 2
    with assms(2) i il show ?thesis by (auto simp add: nth_list_update children_ge_def)
  next
    case 3
    with assms(1) i il show ?thesis by (auto simp add: nth_list_update heap_with_hole_def)
  qed
qed

lemma hole_up:
  assumes "heap_with_hole h pos" "children_ge h pos new" "0 < pos"
    and "time new < time (h ! ((pos - 1) div 2))"
  shows "heap_with_hole (h[pos := h ! ((pos - 1) div 2)]) ((pos - 1) div 2)"
    and "children_ge (h[pos := h ! ((pos - 1) div 2)]) ((pos - 1) div 2) new"
proof -
  let ?pp = "(pos - 1) div 2"
  let ?h = "h[pos := h ! ?pp]"
  from assms(1) have pl: "pos < length h" by (simp add: heap_with_hole_def)
  from assms(3) have pp: "?pp < pos" by simp
  have main: "\<And>i. i < length h \<Longrightarrow> 0 < i \<Longrightarrow> i \<noteq> pos \<Longrightarrow> (i - 1) div 2 \<noteq> pos \<Longrightarrow>
             time (h ! ((i - 1) div 2)) \<le> time (h ! i)"
    using assms(1) by (simp add: heap_with_hole_def)
  have gc: "\<And>c. c < length h \<Longrightarrow> 0 < c \<Longrightarrow> (c - 1) div 2 = pos \<Longrightarrow>
             time (h ! ?pp) \<le> time (h ! c)"
    using assms(1,3) by (simp add: heap_with_hole_def)
  show "heap_with_hole ?h ?pp"
    unfolding heap_with_hole_def
  proof (intro conjI allI impI)
    show "?pp < length ?h" using pp pl by simp
  next
    fix i assume i: "i < length ?h" "0 < i" "i \<noteq> ?pp" "(i - 1) div 2 \<noteq> ?pp"
    then have ip: "i \<noteq> pos" by auto
    show "time (?h ! ((i - 1) div 2)) \<le> time (?h ! i)"
    proof (cases "(i - 1) div 2 = pos")
      case True
      with i ip gc[of i] pl show ?thesis by (simp add: nth_list_update)
    next
      case False
      with i ip main[of i] pl show ?thesis by (simp add: nth_list_update)
    qed
  next
    fix c assume c: "c < length ?h" "0 < c" "(c - 1) div 2 = ?pp" "0 < ?pp"
    have ppp: "(?pp - 1) div 2 \<noteq> pos" using pp by simp
    have a: "time (h ! ((?pp - 1) div 2)) \<le> time (h ! ?pp)"
      using main[of ?pp] pp pl c(4) ppp by simp
    show "time (?h ! ((?pp - 1) div 2)) \<le> time (?h ! c)"
    proof (cases "c = pos")
      case True
      with a pl ppp show ?thesis by (simp add: nth_list_update)
    next
      case False
      moreover have "time (h ! ?pp) \<le> time (h ! c)"
        using main[of c] c False pp by simp
      ultimately show ?thesis using a pl ppp by (simp add: nth_list_update)
    qed
  qed
  show "children_ge ?h ?pp new"
    unfolding children_ge_def
  proof (intro allI impI)
    fix c assume c: "c < length ?h" "0 < c" "(c - 1) div 2 = ?pp"
    show "time new \<le> time (?h ! c)"
    proof (cases "c = pos")
      case True
      with assms(4) pl show ?thesis by simp
    next
      case False
      moreover have "time (h ! ?pp) \<le> time (h ! c)"
        using main[of c] c False pp by simp
      ultimately show ?thesis using assms(4) by simp
    qed
  qed
qed

lemma siftdown_loop_heap:
  "heap_with_hole h pos \<Longrightarrow> children_ge h pos new \<Longrightarrow> startpos = 0 \<Longrightarrow>
   is_heap (siftdown_loop h startpos pos new)"
proof (induction h startpos pos new rule: siftdown_loop.induct)
  case (1 heap startpos pos newitem)
  let ?pp = "(pos - 1) div 2"
  show ?case
  proof (cases "0 < pos \<and> time newitem < time (heap ! ?pp)")
    case False
    then have "siftdown_loop heap startpos pos newitem = heap[pos := newitem]"
      using "1.prems"(3) by (subst siftdown_loop.simps) (auto simp: Let_def)
    moreover have "is_heap (heap[pos := newitem])"
      using "1.prems" False by (intro hole_exit) auto
    ultimately show ?thesis by simp
  next
    case True
    then have "siftdown_loop heap startpos pos newitem
                 = siftdown_loop (heap[pos := heap ! ?pp]) startpos ?pp newitem"
      using "1.prems"(3) by (subst siftdown_loop.simps) (simp add: Let_def)
    moreover have "is_heap (siftdown_loop (heap[pos := heap ! ?pp]) startpos ?pp newitem)"
      using True "1.prems" hole_up[of heap pos newitem]
      by (intro "1.IH"[of ?pp "heap ! ?pp"]) auto
    ultimately show ?thesis by simp
  qed
qed

lemma is_heap_heappush: "is_heap heap \<Longrightarrow> is_heap (heappush heap item)"
proof -
  assume h: "is_heap heap"
  have "heap_with_hole (heap @ [item]) (length heap)"
    unfolding heap_with_hole_def
  proof (intro conjI allI impI)
    fix i assume "i < length (heap @ [item])" "0 < i" "i \<noteq> length heap"
    then show "time ((heap @ [item]) ! ((i - 1) div 2)) \<le> time ((heap @ [item]) ! i)"
      using h by (auto simp: is_heap_def nth_append)
  next
    fix c assume "c < length (heap @ [item])" "(c - 1) div 2 = length heap" "0 < c"
    then have False by auto
    then show "time ((heap @ [item]) ! ((length heap - 1) div 2)) \<le> time ((heap @ [item]) ! c)" ..
  qed simp
  moreover have "children_ge (heap @ [item]) (length heap) item"
    by (auto simp: children_ge_def)
  ultimately show ?thesis
    by (simp add: heappush_def siftdown_def siftdown_loop_heap)
qed

lemma hole_down:
  assumes "heap_with_hole h pos" and "2 * pos + 1 < length h"
    and c: "c = (if 2 * pos + 2 < length h \<and> \<not> time (h ! (2 * pos + 1)) < time (h ! (2 * pos + 2))
               then 2 * pos + 2 else 2 * pos + 1)"
  shows "heap_with_hole (h[pos := h ! c]) c"
proof -
  let ?h = "h[pos := h ! c]"
  from assms(1) have pl: "pos < length h" by (simp add: heap_with_hole_def)
  have cl: "c < length h" using assms(2) c by (auto split: if_splits)
  have cp: "(c - 1) div 2 = pos" "pos < c" "0 < c" using c by (auto split: if_splits)
  have main: "\<And>i. i < length h \<Longrightarrow> 0 < i \<Longrightarrow> i \<noteq> pos \<Longrightarrow> (i - 1) div 2 \<noteq> pos \<Longrightarrow>
             time (h ! ((i - 1) div 2)) \<le> time (h ! i)"
    using assms(1) by (simp add: heap_with_hole_def)
  have gc: "\<And>d. d < length h \<Longrightarrow> 0 < d \<Longrightarrow> (d - 1) div 2 = pos \<Longrightarrow> 0 < pos \<Longrightarrow>
             time (h ! ((pos - 1) div 2)) \<le> time (h ! d)"
    using assms(1) by (simp add: heap_with_hole_def)
  have sib: "\<And>d. d < length h \<Longrightarrow> 0 < d \<Longrightarrow> (d - 1) div 2 = pos \<Longrightarrow> time (h ! c) \<le> time (h ! d)"
  proof -
    fix d assume d: "d < length h" "0 < d" "(d - 1) div 2 = pos"
    then have "d = 2 * pos + 1 \<or> d = 2 * pos + 2" by auto
    then show "time (h ! c) \<le> time (h ! d)"
      using c d by (auto split: if_splits)
  qed
  show ?thesis
    unfolding heap_with_hole_def
  proof (intro conjI allI impI)
    show "c < length ?h" using cl by simp
  next
    fix i assume i: "i < length ?h" "0 < i" "i \<noteq> c" "(i - 1) div 2 \<noteq> c"
    consider "i = pos" | "i \<noteq> pos" "(i - 1) div 2 = pos" | "i \<noteq> pos" "(i - 1) div 2 \<noteq> pos"
      by blast
    then show "time (?h ! ((i - 1) div 2)) \<le> time (?h ! i)"
    proof cases
      case 1
      then have "(i - 1) div 2 \<noteq> pos" using i(2) by simp
      with 1 i gc[of c] cl cp pl show ?thesis by (simp add: nth_list_update)
    next
      case 2
      with i sib[of i] pl show ?thesis by (simp add: nth_list_update)
    next
      case 3
      with i main[of i] pl show ?thesis by (simp add: nth_list_update)
    qed
  next
    fix d assume d: "d < length ?h" "0 < d" "(d - 1) div 2 = c" "0 < c"
    have "d \<noteq> pos" using d cp by auto
    moreover have "time (h ! c) \<le> time (h ! d)" using main[of d] d cp by simp
    ultimately show "time (?h ! ((c - 1) div 2)) \<le> time (?h ! d)"
      using cp pl by (simp add: nth_list_update)
  qed
qed

lemma siftup_loop_hole:
  "siftup_loop heap endpos pos childpos = (heap', pos') \<Longrightarrow> endpos = length heap \<Longrightarrow>
   childpos = 2 * pos + 1 \<Longrightarrow> heap_with_hole heap pos \<Longrightarrow>
   heap_with_hole heap' pos' \<and> length heap' \<le> 2 * pos' + 1"
proof (induction heap endpos pos childpos arbitrary: heap' pos' rule: siftup_loop.induct)
  case (1 heap endpos pos childpos)
  show ?case
  proof (cases "childpos < endpos")
    case False
    with "1.prems" show ?thesis by (subst (asm) siftup_loop.simps) auto
  next
    case True
    define c where "c = (if childpos + 1 < endpos \<and> \<not> time (heap ! childpos) < time (heap ! (childpos + 1))
                          then childpos + 1 else childpos)"
    have step: "siftup_loop (heap[pos := heap ! c]) endpos c (2 * c + 1) = (heap', pos')"
      using "1.prems"(1) True by (subst (asm) siftup_loop.simps) (auto simp: Let_def c_def)
    have "heap_with_hole (heap[pos := heap ! c]) c"
      using "1.prems" True by (intro hole_down[of heap pos c]) (auto simp: c_def)
    then show ?thesis
      using "1.IH"[OF True refl c_def step] "1.prems" by simp
  qed
qed

lemma is_heap_siftup_root:
  assumes "heap \<noteq> []"
    and "\<forall>i<length heap. 0 < i \<longrightarrow> (i - 1) div 2 \<noteq> 0 \<longrightarrow>
            time (heap ! ((i - 1) div 2)) \<le> time (heap ! i)"
  shows "is_heap (siftup heap 0)"
proof -
  obtain heap' pos' where l: "siftup_loop heap (length heap) 0 (2 * 0 + 1) = (heap', pos')"
    by (cases "siftup_loop heap (length heap) 0 (2 * 0 + 1)")
  have "heap_with_hole heap 0" using assms by (auto simp: heap_with_hole_def)
  with l have hole: "heap_with_hole heap' pos'" and leaf: "length heap' \<le> 2 * pos' + 1"
    using siftup_loop_hole[OF l refl refl] by auto
  let ?h = "heap'[pos' := heap ! 0]"
  have "heap_with_hole ?h pos'"
    using hole by (auto simp: heap_with_hole_def nth_list_update)
  moreover have "children_ge ?h pos' (?h ! pos')"
    using leaf by (auto simp: children_ge_def)
  ultimately have "is_heap (siftdown_loop ?h 0 pos' (?h ! pos'))"
    by (intro siftdown_loop_heap) auto
  then show ?thesis using l by (simp add: siftup_def siftdown_def Let_def)
qed

lemma is_heap_root_le:
  "is_heap h \<Longrightarrow> i < length h \<Longrightarrow> time (h ! 0) \<le> time (h ! i)"
proof (induction i rule: less_induct)
  case (less i)
  show ?case
  proof (cases "i = 0")
    case True
    then show ?thesis by simp
  next
    case False
    then have "(i - 1) div 2 < i" by simp
    moreover from this less.prems have "(i - 1) div 2 < length h" by simp
    ultimately have "time (h ! 0) \<le> time (h ! ((i - 1) div 2))"
      using less.IH less.prems(1) by blast
    also have "\<dots> \<le> time (h ! i)" using less.prems False by (simp add: is_heap_def)
    finally show ?thesis .
  qed
qed

lemma heappop_heap:
  assumes "is_heap heap" and "heappop heap = Inr (item, rest)"
  shows "is_heap rest" and "\<forall>e \<in> set rest. time item \<le> time e"
proof -
  from assms(2) have ne: "heap \<noteq> []" by (auto simp: heappop_def split: if_splits)
  have min: "\<forall>e \<in> set heap. time (heap ! 0) \<le> time e"
    using is_heap_root_le[OF assms(1)] by (auto simp: in_set_conv_nth)
  have "set_mset (mset heap) = set_mset (add_mset item (mset rest))"
    using mset_heappop[OF assms(2)] by simp
  then have sub: "set rest \<subseteq> set heap" by auto
  show "is_heap rest"
  proof (cases "butlast heap = []")
    case True
    with assms(2) ne have "rest = []" by (auto simp: heappop_def Let_def)
    then show ?thesis by (simp add: is_heap_def)
  next
    case False
    with assms(2) ne have rest: "rest = siftup ((butlast heap)[0 := last heap]) 0"
      by (auto simp: heappop_def Let_def)
    have "\<forall>i<length (butlast heap). 0 < i \<longrightarrow> (i - 1) div 2 \<noteq> 0 \<longrightarrow>
            time ((butlast heap)[0 := last heap] ! ((i - 1) div 2))
              \<le> time ((butlast heap)[0 := last heap] ! i)"
      using assms(1) by (auto simp: is_heap_def nth_butlast)
    with False show ?thesis unfolding rest by (intro is_heap_siftup_root) auto
  qed
  show "\<forall>e \<in> set rest. time item \<le> time e"
  proof (cases "butlast heap = []")
    case True
    with assms(2) ne have "rest = []" by (auto simp: heappop_def Let_def)
    then show ?thesis by simp
  next
    case False
    with assms(2) ne have "item = butlast heap ! 0" by (auto simp: heappop_def Let_def)
    moreover from False have "0 < length (butlast heap)" by (metis length_greater_0_conv)
    ultimately have "item = heap ! 0" by (simp only: nth_butlast)
    with min sub show ?thesis by auto
  qed
qed

section \<open>The station operations and the handlers, case by case\<close>

lemma py_index_less: "py_index xs i = Inr k \<Longrightarrow> k < length xs"
  by (auto simp: py_index_def Let_def split: if_splits)

lemma is_available_add_to_queue [simp]: "is_available (add_to_queue st j now) = is_available st"
  by (simp add: is_available_def add_to_queue_def update_queue_stats_def Let_def)

lemma queue_add_to_queue [simp]: "queue (add_to_queue st j now) = queue st @ [j]"
  by (simp add: add_to_queue_def update_queue_stats_def Let_def)

lemma servers_busy_add_to_queue [simp]: "servers_busy (add_to_queue st j now) = servers_busy st"
  by (simp add: add_to_queue_def update_queue_stats_def Let_def)

lemma num_servers_add_to_queue [simp]: "num_servers (add_to_queue st j now) = num_servers st"
  by (simp add: add_to_queue_def update_queue_stats_def Let_def)

lemma last_update_time_add_to_queue [simp]:
  "last_update_time (add_to_queue st j now) = now"
  by (simp add: add_to_queue_def update_queue_stats_def Let_def)

lemma total_service_time_add_to_queue [simp]:
  "total_service_time (add_to_queue st j now) = total_service_time st"
  by (simp add: add_to_queue_def update_queue_stats_def Let_def)

lemma mean_service_time_add_to_queue [simp]:
  "mean_service_time (add_to_queue st j now) = mean_service_time st"
  by (simp add: add_to_queue_def update_queue_stats_def Let_def)

lemma total_service_time_complete_service [simp]:
  "total_service_time (complete_service st now) = total_service_time st"
  by (simp add: complete_service_def update_queue_stats_def Let_def)

lemma mean_service_time_complete_service [simp]:
  "mean_service_time (complete_service st now) = mean_service_time st"
  by (simp add: complete_service_def update_queue_stats_def Let_def)

lemma start_service_total_service_time:
  "start_service st now = (x, st2) \<Longrightarrow> total_service_time st2 = total_service_time st"
  by (auto simp add: start_service_def update_queue_stats_def Let_def split: if_splits)

lemma start_service_available:
  "is_available st \<Longrightarrow> queue st \<noteq> [] \<Longrightarrow>
   \<exists>st2. start_service st now = (Some (hd (queue st)), st2)
        \<and> queue st2 = tl (queue st) \<and> servers_busy st2 = servers_busy st + 1
        \<and> num_servers st2 = num_servers st \<and> mean_service_time st2 = mean_service_time st"
  by (simp add: start_service_def update_queue_stats_def is_available_def Let_def)

lemma start_service_None:
  "start_service st now = (None, st2) \<Longrightarrow>
   (queue st = [] \<or> \<not> is_available st) \<and> queue st2 = queue st \<and> servers_busy st2 = servers_busy st
     \<and> num_servers st2 = num_servers st"
  by (auto simp add: start_service_def update_queue_stats_def is_available_def Let_def split: if_splits)

lemma start_service_Some:
  "start_service st now = (Some k, st2) \<Longrightarrow>
   queue st \<noteq> [] \<and> is_available st \<and> k = hd (queue st) \<and> queue st2 = tl (queue st)
     \<and> servers_busy st2 = servers_busy st + 1
     \<and> num_servers st2 = num_servers st \<and> mean_service_time st2 = mean_service_time st"
  by (auto simp add: start_service_def update_queue_stats_def is_available_def Let_def split: if_splits)

lemma start_service_unavailable:
  "\<not> is_available st \<Longrightarrow> last_update_time st = now \<Longrightarrow> start_service st now = (None, st)"
  by (simp add: start_service_def update_queue_stats_def is_available_def Let_def)

lemma queue_complete_service [simp]: "queue (complete_service st now) = queue st"
  by (simp add: complete_service_def update_queue_stats_def Let_def)

lemma servers_busy_complete_service [simp]:
  "servers_busy (complete_service st now) = servers_busy st - 1"
  by (simp add: complete_service_def update_queue_stats_def Let_def)

lemma num_servers_complete_service [simp]:
  "num_servers (complete_service st now) = num_servers st"
  by (simp add: complete_service_def update_queue_stats_def Let_def)

lemma process_arrival_cases:
  assumes "process_arrival R net ev = Inr net'"
  obtains
    (queued) i job where
      "py_index (stations net) (e_station_id ev) = Inr i"
      "jobs net (e_job_id ev) = Some job"
      "\<not> is_available (stations net ! i)"
      "net' = net\<lparr>jobs_in_transit := jobs_in_transit net - {e_job_id ev},
                  stations := (stations net)[i := add_to_queue (stations net ! i) (e_job_id ev) (current_time net)]\<rparr>"
  | (served) i job k st2 d g' where
      "py_index (stations net) (e_station_id ev) = Inr i"
      "jobs net (e_job_id ev) = Some job"
      "is_available (stations net ! i)"
      "start_service (add_to_queue (stations net ! i) (e_job_id ev) (current_time net)) (current_time net)
         = (Some k, st2)"
      "generate_service_time R st2 (rng net) = Inr (d, g')"
      "net' = net\<lparr>jobs_in_transit := jobs_in_transit net - {e_job_id ev},
                  stations := (stations net)[i := st2\<lparr>total_service_time := total_service_time st2 + d\<rparr>],
                  jobs := (jobs net)(e_job_id ev \<mapsto>
                            job\<lparr>station_visits := station_visits job
                                   @ [(e_station_id ev, time ev, current_time net + d)]\<rparr>),
                  rng := g',
                  event_queue := heappush (event_queue net)
                     \<lparr>time = current_time net + d, event_type = DEPARTURE, e_job_id = k,
                      e_station_id = e_station_id ev\<rparr>\<rparr>"
proof -
  from assms obtain i job where i: "py_index (stations net) (e_station_id ev) = Inr i"
    and job: "jobs net (e_job_id ev) = Some job"
    by (auto simp: process_arrival_def split: sum.splits option.splits)
  let ?st1 = "add_to_queue (stations net ! i) (e_job_id ev) (current_time net)"
  show thesis
  proof (cases "is_available (stations net ! i)")
    case False
    with assms i job show thesis
      by (intro queued[of i job]) (auto simp: process_arrival_def Let_def)
  next
    case True
    then obtain st2 where st2: "start_service ?st1 (current_time net) = (Some (hd (queue ?st1)), st2)"
      using start_service_available[of ?st1 "current_time net"] by auto
    with assms i job True obtain d g' where d: "generate_service_time R st2 (rng net) = Inr (d, g')"
      by (auto simp: process_arrival_def Let_def split: sum.splits)
    from assms i job True st2 d show thesis
      by (intro served[of i job "hd (queue ?st1)" st2 d g'])
         (auto simp: process_arrival_def schedule_event_def Let_def)
  qed
qed

lemma process_departure_cases:
  assumes "process_departure R net ev = Inr net'"
  obtains
    (idle) i job next_station g' where
      "py_index (stations net) (e_station_id ev) = Inr i"
      "jobs net (e_job_id ev) = Some job"
      "queue (stations net ! i) = []"
      "net' = net\<lparr>stations := (stations net)[i := complete_service (stations net ! i) (current_time net)],
                  total_completions := total_completions net + 1,
                  jobs_in_transit := insert (e_job_id ev) (jobs_in_transit net),
                  rng := g',
                  event_queue := heappush (event_queue net)
                     \<lparr>time = current_time net, event_type = ARRIVAL, e_job_id = e_job_id ev,
                      e_station_id = int next_station\<rparr>\<rparr>"
  | (blocked) i job st2 next_station g' where
      "py_index (stations net) (e_station_id ev) = Inr i"
      "jobs net (e_job_id ev) = Some job"
      "queue (stations net ! i) \<noteq> []"
      "start_service (complete_service (stations net ! i) (current_time net)) (current_time net)
         = (None, st2)"
      "net' = net\<lparr>total_completions := total_completions net + 1,
                  stations := (stations net)[i := st2],
                  jobs_in_transit := insert (e_job_id ev) (jobs_in_transit net),
                  rng := g',
                  event_queue := heappush (event_queue net)
                     \<lparr>time = current_time net, event_type = ARRIVAL, e_job_id = e_job_id ev,
                      e_station_id = int next_station\<rparr>\<rparr>"
  | (next_served) i job k st2 d g1 next_job next_station g' where
      "py_index (stations net) (e_station_id ev) = Inr i"
      "jobs net (e_job_id ev) = Some job"
      "queue (stations net ! i) \<noteq> []"
      "start_service (complete_service (stations net ! i) (current_time net)) (current_time net)
         = (Some k, st2)"
      "generate_service_time R st2 (rng net) = Inr (d, g1)"
      "jobs net k = Some next_job"
      "net' = net\<lparr>total_completions := total_completions net + 1,
                  stations := (stations net)[i := st2\<lparr>total_service_time := total_service_time st2 + d\<rparr>],
                  jobs := (jobs net)(k \<mapsto>
                            next_job\<lparr>station_visits := station_visits next_job
                                   @ [(e_station_id ev, current_time net, current_time net + d)]\<rparr>),
                  jobs_in_transit := insert (e_job_id ev) (jobs_in_transit net),
                  rng := g',
                  event_queue := heappush
                     (heappush (event_queue net)
                        \<lparr>time = current_time net + d, event_type = DEPARTURE, e_job_id = k,
                         e_station_id = e_station_id ev\<rparr>)
                     \<lparr>time = current_time net, event_type = ARRIVAL, e_job_id = e_job_id ev,
                      e_station_id = int next_station\<rparr>\<rparr>"
proof -
  from assms obtain i job where i: "py_index (stations net) (e_station_id ev) = Inr i"
    and job: "jobs net (e_job_id ev) = Some job"
    by (auto simp: process_departure_def split: sum.splits option.splits)
  let ?st1 = "complete_service (stations net ! i) (current_time net)"
  show thesis
  proof (cases "queue (stations net ! i) = []")
    case True
    with assms i job show thesis
      by (auto simp: process_departure_def schedule_event_def Let_def
               split: sum.splits prod.splits intro!: idle[of i job])
  next
    case False
    obtain x st2 where st2: "start_service ?st1 (current_time net) = (x, st2)"
      by (cases "start_service ?st1 (current_time net)")
    show thesis
    proof (cases x)
      case None
      with assms i job False st2 show thesis
        by (auto simp: process_departure_def schedule_event_def Let_def
                 split: sum.splits prod.splits intro!: blocked[of i job st2])
    next
      case (Some k)
      with assms i job False st2 show thesis
        by (auto simp: process_departure_def schedule_event_def Let_def
                 split: sum.splits prod.splits option.splits intro!: next_served[of i job k st2])
    qed
  qed
qed

lemma run_iteration_cases:
  assumes "run_iteration R W (net, wd, tr) = Inr (net', wd', tr')"
  obtains ev rest where
    "heappop (event_queue net) = Inr (ev, rest)"
    "tr' = tr @ [ev]"
    "wd' = (wd \<or> W \<le> time ev)"
    "(event_type ev = ARRIVAL \<and> process_arrival R (handler_input W net wd ev rest) ev = Inr net')
     \<or> (event_type ev = DEPARTURE \<and> process_departure R (handler_input W net wd ev rest) ev = Inr net')"
proof -
  from assms obtain ev rest where pop: "heappop (event_queue net) = Inr (ev, rest)"
    by (auto simp: run_iteration_def split: sum.splits)
  with assms show thesis
    by (intro that[of ev rest])
       (auto simp: run_iteration_def handler_input_def Let_def
             split: sum.splits EventType.splits if_splits)
qed

lemma handler_input_simps [simp]:
  "event_queue (handler_input W net wd ev rest) = rest"
  "current_time (handler_input W net wd ev rest) = time ev"
  "jobs_in_transit (handler_input W net wd ev rest) = jobs_in_transit net"
  "jobs (handler_input W net wd ev rest) = jobs net"
  "rng (handler_input W net wd ev rest) = rng net"
  "num_jobs (handler_input W net wd ev rest) = num_jobs net"
  "routing_matrix (handler_input W net wd ev rest) = routing_matrix net"
  "num_stations (handler_input W net wd ev rest) = num_stations net"
  "length (stations (handler_input W net wd ev rest)) = length (stations net)"
  by (simp_all add: handler_input_def reset_statistics_def Let_def)

lemma handler_input_stations:
  "stations (handler_input W net wd ev rest) = stations net
   \<or> stations (handler_input W net wd ev rest)
        = map (reset_statistics_station (time ev)) (stations net)"
  by (simp add: handler_input_def reset_statistics_def Let_def)

lemma reset_statistics_station_simps [simp]:
  "queue (reset_statistics_station t st) = queue st"
  "servers_busy (reset_statistics_station t st) = servers_busy st"
  "num_servers (reset_statistics_station t st) = num_servers st"
  "mean_service_time (reset_statistics_station t st) = mean_service_time st"
  by (simp_all add: reset_statistics_station_def)

lemma queue_handler_input:
  "i < length (stations net) \<Longrightarrow>
   queue (stations (handler_input W net wd ev rest) ! i) = queue (stations net ! i)"
  using handler_input_stations[of W net wd ev rest] by auto

section \<open>The states of a run\<close>

lemma reachable_run_steps:
  "reachable R T W net0 s \<Longrightarrow> run_steps R T W n s = Inr s' \<Longrightarrow> reachable R T W net0 s'"
proof (induction n arbitrary: s)
  case 0
  then show ?case by simp
next
  case (Suc n)
  show ?case
  proof (cases "loop_condition T s")
    case False
    with Suc.prems show ?thesis by simp
  next
    case True
    with Suc.prems obtain s1 where s1: "run_iteration R W s = Inr s1" "run_steps R T W n s1 = Inr s'"
      by (auto split: sum.splits)
    from Suc.prems(1) True s1(1) have "reachable R T W net0 s1"
      by (rule reachable.after_iteration)
    then show ?thesis using s1(2) by (rule Suc.IH)
  qed
qed

lemma reachable_run_loop_aux:
  assumes "run_loop R T W s = Some r"
  shows "\<forall>s'. r = Inr s' \<longrightarrow> reachable R T W net0 s \<longrightarrow> reachable R T W net0 s'"
proof (rule run_loop.raw_induct
         [where P = "\<lambda>R T W s r. \<forall>s'. r = Inr s' \<longrightarrow> reachable R T W net0 s \<longrightarrow> reachable R T W net0 s'",
          OF _ assms])
  fix run_loop' :: "'a random_source \<Rightarrow> real \<Rightarrow> real \<Rightarrow> 'a run_state \<Rightarrow> (error + 'a run_state) option"
  fix R T W s r
  assume IH: "\<And>T W s b y. run_loop' T W s b = Some y \<Longrightarrow>
                \<forall>s'. y = Inr s' \<longrightarrow> reachable T W s net0 b \<longrightarrow> reachable T W s net0 s'"
  assume body: "(if loop_condition T s
                 then case run_iteration R W s of Inl e \<Rightarrow> Some (Inl e)
                      | Inr s' \<Rightarrow> run_loop' R T W s'
                 else Some (Inr s)) = Some r"
  show "\<forall>s'. r = Inr s' \<longrightarrow> reachable R T W net0 s \<longrightarrow> reachable R T W net0 s'"
  proof (intro allI impI)
    fix s'
    assume r: "r = Inr s'" and reach: "reachable R T W net0 s"
    show "reachable R T W net0 s'"
    proof (cases "loop_condition T s")
      case False
      with body r reach show ?thesis by simp
    next
      case True
      with body r obtain s1 where s1: "run_iteration R W s = Inr s1" "run_loop' R T W s1 = Some r"
        by (auto split: sum.splits)
      from reach True s1(1) have "reachable R T W net0 s1"
        by (rule reachable.after_iteration)
      with IH [OF s1(2)] r show ?thesis by blast
    qed
  qed
qed

lemma reachable_run_loop:
  "run_loop R T W s = Some (Inr s') \<Longrightarrow> reachable R T W net0 s \<Longrightarrow> reachable R T W net0 s'"
  using reachable_run_loop_aux by blast

lemma init_fields:
  assumes "init R n_jobs matrix seed g = Inr net"
  shows "num_jobs net = n_jobs" "stations net = []" "event_queue net = []"
    "jobs_in_transit net = {}" "current_time net = 0"
  using assms by (auto simp: init_def split: sum.splits option.splits if_splits)

lemma add_stations_fields [simp]:
  "event_queue (add_stations net specs) = event_queue net"
  "jobs_in_transit (add_stations net specs) = jobs_in_transit net"
  "num_jobs (add_stations net specs) = num_jobs net"
  "current_time (add_stations net specs) = current_time net"
proof -
  have "event_queue (add_stations net specs) = event_queue net
        \<and> jobs_in_transit (add_stations net specs) = jobs_in_transit net
        \<and> num_jobs (add_stations net specs) = num_jobs net
        \<and> current_time (add_stations net specs) = current_time net"
    unfolding add_stations_def
    by (induction specs arbitrary: net) (auto simp: add_station_def Let_def)
  then show "event_queue (add_stations net specs) = event_queue net"
    "jobs_in_transit (add_stations net specs) = jobs_in_transit net"
    "num_jobs (add_stations net specs) = num_jobs net"
    "current_time (add_stations net specs) = current_time net" by simp_all
qed

lemma stations_add_stations:
  assumes "\<forall>i k m. P (new_station i k m)"
  shows "\<forall>st \<in> set (stations net). P st \<Longrightarrow>
         \<forall>st \<in> set (stations (add_stations net specs)). P st"
proof (induction specs arbitrary: net)
  case Nil
  then show ?case by (simp add: add_stations_def)
next
  case (Cons spec specs)
  obtain k m where spec: "spec = (k, m)" by (cases spec)
  let ?net = "snd (add_station net k m)"
  have "\<forall>st \<in> set (stations ?net). P st"
    using Cons.prems assms by (auto simp: add_station_def Let_def)
  then have "\<forall>st \<in> set (stations (add_stations ?net specs)). P st" by (rule Cons.IH)
  then show ?case by (simp add: add_stations_def spec)
qed

lemma stations_initialize_jobs [simp]:
  "stations (initialize_jobs net initial_station) = stations net"
proof -
  have "stations (fold (initialize_job initial_station) js net) = stations net" for js
    by (induction js arbitrary: net) (auto simp: initialize_job_def Let_def)
  then show ?thesis by (simp add: initialize_jobs_def)
qed

lemma build_stations:
  assumes "build R n_jobs matrix seed specs initial_station g = Inr net0"
    and "\<forall>i k m. P (new_station i k m)"
  shows "\<forall>st \<in> set (stations net0). P st"
proof -
  from assms(1) obtain net where net: "init R n_jobs matrix seed g = Inr net"
    and net0: "net0 = initialize_jobs (add_stations net specs) initial_station"
    by (auto simp: build_def split: sum.splits)
  from net have "stations net = []" by (auto simp: init_def split: sum.splits option.splits if_splits)
  then have "\<forall>st \<in> set (stations net). P st" by simp
  with assms(2) have "\<forall>st \<in> set (stations (add_stations net specs)). P st"
    by (rule stations_add_stations)
  then show ?thesis unfolding net0 by simp
qed

lemma fold_initialize_job:
  "mset (event_queue (fold (initialize_job s) js net))
     = mset (event_queue net)
       + mset (map (\<lambda>j. \<lparr>time = 0, event_type = ARRIVAL, e_job_id = j, e_station_id = s\<rparr>) js)
   \<and> jobs_in_transit (fold (initialize_job s) js net) = jobs_in_transit net
   \<and> num_jobs (fold (initialize_job s) js net) = num_jobs net
   \<and> current_time (fold (initialize_job s) js net) = current_time net"
  by (induction js arbitrary: net) (auto simp: initialize_job_def Let_def)

lemma initialize_jobs_fields:
  "mset (event_queue (initialize_jobs net s))
     = mset (event_queue net)
       + mset (map (\<lambda>j. \<lparr>time = 0, event_type = ARRIVAL, e_job_id = j, e_station_id = s\<rparr>)
                 [0..<nat (num_jobs net)])"
  "jobs_in_transit (initialize_jobs net s) = jobs_in_transit net"
  "num_jobs (initialize_jobs net s) = num_jobs net"
  "current_time (initialize_jobs net s) = current_time net"
  using fold_initialize_job[of s "[0..<nat (num_jobs net)]" net]
  by (simp_all add: initialize_jobs_def)

lemma build_fields:
  assumes "build R n_jobs matrix seed specs initial_station g = Inr net0"
  shows "mset (event_queue net0)
           = mset (map (\<lambda>j. \<lparr>time = 0, event_type = ARRIVAL, e_job_id = j,
                              e_station_id = initial_station\<rparr>) [0..<nat n_jobs])"
    and "jobs_in_transit net0 = {}" and "num_jobs net0 = n_jobs" and "current_time net0 = 0"
proof -
  from assms obtain net where net: "init R n_jobs matrix seed g = Inr net"
    and net0: "net0 = initialize_jobs (add_stations net specs) initial_station"
    by (auto simp: build_def split: sum.splits)
  note f = init_fields[OF net]
  show "mset (event_queue net0)
           = mset (map (\<lambda>j. \<lparr>time = 0, event_type = ARRIVAL, e_job_id = j,
                              e_station_id = initial_station\<rparr>) [0..<nat n_jobs])"
    unfolding net0 by (simp add: initialize_jobs_fields f)
  show "jobs_in_transit net0 = {}" "num_jobs net0 = n_jobs" "current_time net0 = 0"
    unfolding net0 by (simp_all add: initialize_jobs_fields f)
qed

subsection \<open>Every station stays in order\<close>

lemma station_ok_reset [simp]: "station_ok (reset_statistics_station t st) = station_ok st"
  by (simp add: station_ok_def is_available_def)

lemma station_ok_handler_input:
  "\<forall>st \<in> set (stations net). station_ok st \<Longrightarrow>
   \<forall>st \<in> set (stations (handler_input W net wd ev rest)). station_ok st"
  using handler_input_stations[of W net wd ev rest] by auto

lemma all_set_update:
  "ys = xs[i := y] \<Longrightarrow> \<forall>x \<in> set xs. P x \<Longrightarrow> P y \<Longrightarrow> \<forall>x \<in> set ys. P x"
  using set_update_subset_insert[of xs i y] by auto

lemma station_ok_total_service_time [simp]:
  "station_ok (st\<lparr>total_service_time := x\<rparr>) = station_ok st"
  by (simp add: station_ok_def is_available_def)

lemma station_ok_process_arrival:
  assumes "process_arrival R net ev = Inr net'" and "\<forall>st \<in> set (stations net). station_ok st"
  shows "\<forall>st \<in> set (stations net'). station_ok st"
  using assms(1)
proof (cases rule: process_arrival_cases)
  case (queued i job)
  from queued(1) have "stations net ! i \<in> set (stations net)" by (simp add: py_index_less)
  with assms(2) have "station_ok (stations net ! i)" by blast
  with queued(3) have ok': "station_ok (add_to_queue (stations net ! i) (e_job_id ev) (current_time net))"
    by (simp add: station_ok_def is_available_def)
  have "stations net' = (stations net)[i := add_to_queue (stations net ! i) (e_job_id ev) (current_time net)]" unfolding queued(4) by simp
  from all_set_update[OF this assms(2)] ok' show ?thesis by simp
next
  case (served i job k st2 d g')
  from served(1) have "stations net ! i \<in> set (stations net)" by (simp add: py_index_less)
  with assms(2) have ok: "station_ok (stations net ! i)" by blast
  from start_service_Some[OF served(4)] served(3) ok have ok': "station_ok st2"
    by (auto simp: station_ok_def is_available_def)
  have "stations net' = (stations net)[i := st2\<lparr>total_service_time := total_service_time st2 + d\<rparr>]" unfolding served(6) by simp
  from all_set_update[OF this assms(2)] ok' show ?thesis by simp
qed

lemma station_ok_process_departure:
  assumes "process_departure R net ev = Inr net'" and "\<forall>st \<in> set (stations net). station_ok st"
  shows "\<forall>st \<in> set (stations net'). station_ok st"
  using assms(1)
proof (cases rule: process_departure_cases)
  case (idle i job next_station g')
  from idle(1) have "stations net ! i \<in> set (stations net)" by (simp add: py_index_less)
  with assms(2) have "station_ok (stations net ! i)" by blast
  with idle(3) have ok': "station_ok (complete_service (stations net ! i) (current_time net))"
    by (auto simp: station_ok_def is_available_def)
  have "stations net' = (stations net)[i := complete_service (stations net ! i) (current_time net)]" unfolding idle(4) by simp
  from all_set_update[OF this assms(2)] ok' show ?thesis by simp
next
  case (blocked i job st2 next_station g')
  from blocked(1) have "stations net ! i \<in> set (stations net)" by (simp add: py_index_less)
  with assms(2) have ok: "station_ok (stations net ! i)" by blast
  from start_service_None[OF blocked(4)] blocked(3) ok have ok': "station_ok st2"
    by (auto simp: station_ok_def is_available_def)
  have "stations net' = (stations net)[i := st2]" unfolding blocked(5) by simp
  from all_set_update[OF this assms(2)] ok' show ?thesis by simp
next
  case (next_served i job k st2 d g1 next_job next_station g')
  from next_served(1) have "stations net ! i \<in> set (stations net)" by (simp add: py_index_less)
  with assms(2) have ok: "station_ok (stations net ! i)" by blast
  from start_service_Some[OF next_served(4)] next_served(3) ok have ok': "station_ok st2"
    by (auto simp: station_ok_def is_available_def)
  have "stations net' = (stations net)[i := st2\<lparr>total_service_time := total_service_time st2 + d\<rparr>]" unfolding next_served(7) by simp
  from all_set_update[OF this assms(2)] ok' show ?thesis by simp
qed

lemma station_ok_run_iteration:
  assumes "run_iteration R W (net, wd, tr) = Inr (net', wd', tr')"
    and "\<forall>st \<in> set (stations net). station_ok st"
  shows "\<forall>st \<in> set (stations net'). station_ok st"
  using assms(1)
proof (cases rule: run_iteration_cases)
  case (1 ev rest)
  from assms(2) have "\<forall>st \<in> set (stations (handler_input W net wd ev rest)). station_ok st"
    by (rule station_ok_handler_input)
  with 1(4) show ?thesis
    using station_ok_process_arrival station_ok_process_departure by blast
qed

lemma reachable_station_ok:
  assumes "build R n_jobs matrix seed specs initial_station g = Inr net0"
    and "reachable R T W net0 s"
  shows "\<forall>st \<in> set (stations (fst s)). station_ok st"
  using assms(2)
proof (induction rule: reachable.induct)
  case at_call
  have "\<forall>st \<in> set (stations net0). station_ok st"
    by (rule build_stations[OF assms(1)])
       (simp add: station_ok_def new_station_def is_available_def)
  then show ?case by simp
next
  case (after_iteration s s')
  obtain net wd tr where s: "s = (net, wd, tr)" by (cases s)
  obtain net' wd' tr' where s': "s' = (net', wd', tr')" by (cases s')
  from after_iteration.hyps(3) after_iteration.IH show ?case
    unfolding s s' fst_conv by (rule station_ok_run_iteration)
qed

subsection \<open>Every job stays in one place\<close>

lemma sum_list_update_add:
  fixes f :: "'a \<Rightarrow> 'b::comm_monoid_add"
  shows "i < length xs \<Longrightarrow>
         sum_list (map f (xs[i := y])) + f (xs ! i) = sum_list (map f xs) + f y"
proof (induction xs arbitrary: i)
  case Nil
  then show ?case by simp
next
  case (Cons x xs)
  show ?case
  proof (cases i)
    case 0
    then show ?thesis by (simp add: ac_simps)
  next
    case (Suc k)
    with Cons.prems have "k < length xs" by simp
    from Cons.IH[OF this] have "sum_list (map f (xs[k := y])) + f (xs ! k) = sum_list (map f xs) + f y" .
    then have "f x + (sum_list (map f (xs[k := y])) + f (xs ! k)) = f x + (sum_list (map f xs) + f y)"
      by simp
    then show ?thesis using Suc by (simp add: ac_simps)
  qed
qed

lemma sum_list_all_zero:
  fixes f :: "'a \<Rightarrow> 'b::comm_monoid_add"
  shows "\<forall>x\<in>set xs. f x = 0 \<Longrightarrow> sum_list (map f xs) = 0"
  by (induction xs) auto

lemma distinct_mset_le:
  assumes "mset ys \<subseteq># mset xs" and "distinct xs"
  shows "distinct ys"
proof -
  have le: "count (mset ys) a \<le> 1" for a
  proof -
    have "count (mset ys) a \<le> count (mset xs) a" using assms(1) by (rule mset_subset_eq_count)
    also have "\<dots> \<le> 1" using assms(2) by (simp add: distinct_count_atmost_1)
    finally show ?thesis .
  qed
  show ?thesis
    unfolding distinct_count_atmost_1
  proof (intro allI)
    fix a
    show "count (mset ys) a = (if a \<in> set ys then 1 else 0)"
    proof (cases "a \<in> set ys")
      case True
      then have "0 < count (mset ys) a" by simp
      with le[of a] have "count (mset ys) a = 1" by arith
      with True show ?thesis by simp
    next
      case False
      then show ?thesis by (simp add: count_eq_zero_iff)
    qed
  qed
qed

lemma jobs_at_stations_update:
  assumes "i < length (stations net)" and "stations net' = (stations net)[i := st']"
  shows "jobs_at_stations net'
           = jobs_at_stations net
             - (servers_busy (stations net ! i) + int (length (queue (stations net ! i))))
             + (servers_busy st' + int (length (queue st')))"
  using sum_list_update_add[OF assms(1), of "\<lambda>st. servers_busy st + int (length (queue st))" st']
  by (simp add: jobs_at_stations_def assms(2))

lemma queued_jobs_update:
  assumes "i < length (stations net)" and "stations net' = (stations net)[i := st']"
  shows "queued_jobs net' + mset (queue (stations net ! i)) = queued_jobs net + mset (queue st')"
  using sum_list_update_add[OF assms(1), of "\<lambda>st. mset (queue st)" st']
  by (simp add: queued_jobs_def assms(2))

lemma sum_stations_handler_input:
  fixes f :: "Station \<Rightarrow> 'b::comm_monoid_add"
  assumes "\<And>t st. f (reset_statistics_station t st) = f st"
  shows "(\<Sum>st\<leftarrow>stations (handler_input W net wd ev rest). f st) = (\<Sum>st\<leftarrow>stations net. f st)"
  using handler_input_stations[of W net wd ev rest] assms
  by (auto simp: comp_def)

lemma jobs_at_stations_handler_input [simp]:
  "jobs_at_stations (handler_input W net wd ev rest) = jobs_at_stations net"
  unfolding jobs_at_stations_def by (rule sum_stations_handler_input) simp

lemma queued_jobs_handler_input [simp]:
  "queued_jobs (handler_input W net wd ev rest) = queued_jobs net"
  unfolding queued_jobs_def by (rule sum_stations_handler_input) simp

lemma pending_arrivals_heappush_departure:
  "event_type item = DEPARTURE \<Longrightarrow> event_queue net' = heappush (event_queue net) item \<Longrightarrow>
   set (pending_arrivals net') = set (pending_arrivals net)
   \<and> length (pending_arrivals net') = length (pending_arrivals net)"
  by (auto simp: pending_arrivals_def filter_heappush)

lemma pending_arrivals_heappush_arrival:
  "event_type item = ARRIVAL \<Longrightarrow> event_queue net' = heappush (event_queue net) item \<Longrightarrow>
   set (pending_arrivals net') = insert item (set (pending_arrivals net))
   \<and> length (pending_arrivals net') = length (pending_arrivals net) + 1"
  by (auto simp: pending_arrivals_def filter_heappush)

lemma process_arrival_tracking:
  assumes "process_arrival R net ev = Inr net'"
  shows "job_places net' = add_mset (e_job_id ev) (job_places net)
       \<and> jobs_in_transit net' = jobs_in_transit net - {e_job_id ev}
       \<and> jobs_at_stations net' = jobs_at_stations net + 1
       \<and> set (pending_arrivals net') = set (pending_arrivals net)
       \<and> length (pending_arrivals net') = length (pending_arrivals net)
       \<and> num_jobs net' = num_jobs net"
  using assms
proof (cases rule: process_arrival_cases)
  case (queued i job)
  let ?st' = "add_to_queue (stations net ! i) (e_job_id ev) (current_time net)"
  have il: "i < length (stations net)" using queued(1) by (rule py_index_less)
  have st: "stations net' = (stations net)[i := ?st']" unfolding queued(4) by simp
  have eq: "event_queue net' = event_queue net" unfolding queued(4) by simp
  have "queued_jobs net' + mset (queue (stations net ! i))
          = queued_jobs net + mset (queue ?st')"
    by (rule queued_jobs_update[OF il st])
  then have "queued_jobs net' = add_mset (e_job_id ev) (queued_jobs net)" by simp
  moreover have "jobs_at_stations net' = jobs_at_stations net + 1"
    using jobs_at_stations_update[OF il st] by simp
  ultimately show ?thesis
    using eq by (simp add: job_places_def pending_arrivals_def queued(4))
next
  case (served i job k st2 d g')
  let ?st' = "st2\<lparr>total_service_time := total_service_time st2 + d\<rparr>"
  let ?dep = "\<lparr>time = current_time net + d, event_type = DEPARTURE, e_job_id = k,
               e_station_id = e_station_id ev\<rparr>"
  have il: "i < length (stations net)" using served(1) by (rule py_index_less)
  have st: "stations net' = (stations net)[i := ?st']" unfolding served(6) by simp
  have eq: "event_queue net' = heappush (event_queue net) ?dep" unfolding served(6) by simp
  note ss = start_service_Some[OF served(4)]
  have k: "add_mset k (mset (queue st2)) = add_mset (e_job_id ev) (mset (queue (stations net ! i)))"
  proof -
    have "mset (queue (stations net ! i) @ [e_job_id ev])
            = mset (k # queue st2)"
      using ss by (metis queue_add_to_queue list.collapse)
    then show ?thesis by simp
  qed
  have "queued_jobs net' + mset (queue (stations net ! i)) = queued_jobs net + mset (queue ?st')"
    by (rule queued_jobs_update[OF il st])
  then have "add_mset k (queued_jobs net') + mset (queue (stations net ! i))
               = queued_jobs net + add_mset k (mset (queue st2))" by simp
  then have "add_mset k (queued_jobs net') + mset (queue (stations net ! i))
               = add_mset (e_job_id ev) (queued_jobs net) + mset (queue (stations net ! i))"
    unfolding k by simp
  then have qj: "add_mset k (queued_jobs net') = add_mset (e_job_id ev) (queued_jobs net)"
    by simp
  have "length (queue st2) = length (queue (stations net ! i))"
    using ss by simp
  then have jas: "jobs_at_stations net' = jobs_at_stations net + 1"
    using jobs_at_stations_update[OF il st] ss by simp
  have pa: "set (pending_arrivals net') = set (pending_arrivals net)
            \<and> length (pending_arrivals net') = length (pending_arrivals net)"
    by (rule pending_arrivals_heappush_departure[OF _ eq]) simp
  have "job_places net' = add_mset (e_job_id ev) (job_places net)"
    unfolding job_places_def eq using qj by simp
  with jas pa show ?thesis by (simp add: served(6))
qed

lemma process_departure_tracking:
  assumes "process_departure R net ev = Inr net'"
  shows "job_places net' = add_mset (e_job_id ev) (job_places net)
       \<and> jobs_in_transit net' = insert (e_job_id ev) (jobs_in_transit net)
       \<and> jobs_at_stations net' = jobs_at_stations net - 1
       \<and> (\<exists>a. event_type a = ARRIVAL \<and> e_job_id a = e_job_id ev \<and> time a = current_time net
            \<and> set (pending_arrivals net') = insert a (set (pending_arrivals net)))
       \<and> length (pending_arrivals net') = length (pending_arrivals net) + 1
       \<and> num_jobs net' = num_jobs net"
  using assms
proof (cases rule: process_departure_cases)
  case (idle i job next_station g')
  let ?st' = "complete_service (stations net ! i) (current_time net)"
  let ?arr = "\<lparr>time = current_time net, event_type = ARRIVAL, e_job_id = e_job_id ev,
               e_station_id = int next_station\<rparr>"
  have il: "i < length (stations net)" using idle(1) by (rule py_index_less)
  have st: "stations net' = (stations net)[i := ?st']" unfolding idle(4) by simp
  have eq: "event_queue net' = heappush (event_queue net) ?arr" unfolding idle(4) by simp
  have "queued_jobs net' + mset (queue (stations net ! i)) = queued_jobs net + mset (queue ?st')"
    by (rule queued_jobs_update[OF il st])
  then have qj: "queued_jobs net' = queued_jobs net" by simp
  have jas: "jobs_at_stations net' = jobs_at_stations net - 1"
    using jobs_at_stations_update[OF il st] by simp
  have pa: "set (pending_arrivals net') = insert ?arr (set (pending_arrivals net))
            \<and> length (pending_arrivals net') = length (pending_arrivals net) + 1"
    by (rule pending_arrivals_heappush_arrival[OF _ eq]) simp
  have "job_places net' = add_mset (e_job_id ev) (job_places net)"
    unfolding job_places_def eq using qj by simp
  moreover have "\<exists>a. event_type a = ARRIVAL \<and> e_job_id a = e_job_id ev \<and> time a = current_time net
            \<and> set (pending_arrivals net') = insert a (set (pending_arrivals net))"
    using pa by (intro exI[of _ ?arr]) simp
  ultimately show ?thesis using jas pa by (simp add: idle(4))
next
  case (blocked i job st2 next_station g')
  let ?arr = "\<lparr>time = current_time net, event_type = ARRIVAL, e_job_id = e_job_id ev,
               e_station_id = int next_station\<rparr>"
  have il: "i < length (stations net)" using blocked(1) by (rule py_index_less)
  have st: "stations net' = (stations net)[i := st2]" unfolding blocked(5) by simp
  have eq: "event_queue net' = heappush (event_queue net) ?arr" unfolding blocked(5) by simp
  note sn = start_service_None[OF blocked(4)]
  have "queued_jobs net' + mset (queue (stations net ! i)) = queued_jobs net + mset (queue st2)"
    by (rule queued_jobs_update[OF il st])
  then have qj: "queued_jobs net' = queued_jobs net" using sn by simp
  have jas: "jobs_at_stations net' = jobs_at_stations net - 1"
    using jobs_at_stations_update[OF il st] sn by simp
  have pa: "set (pending_arrivals net') = insert ?arr (set (pending_arrivals net))
            \<and> length (pending_arrivals net') = length (pending_arrivals net) + 1"
    by (rule pending_arrivals_heappush_arrival[OF _ eq]) simp
  have "job_places net' = add_mset (e_job_id ev) (job_places net)"
    unfolding job_places_def eq using qj by simp
  moreover have "\<exists>a. event_type a = ARRIVAL \<and> e_job_id a = e_job_id ev \<and> time a = current_time net
            \<and> set (pending_arrivals net') = insert a (set (pending_arrivals net))"
    using pa by (intro exI[of _ ?arr]) simp
  ultimately show ?thesis using jas pa by (simp add: blocked(5))
next
  case (next_served i job k st2 d g1 next_job next_station g')
  let ?st' = "st2\<lparr>total_service_time := total_service_time st2 + d\<rparr>"
  let ?dep = "\<lparr>time = current_time net + d, event_type = DEPARTURE, e_job_id = k,
               e_station_id = e_station_id ev\<rparr>"
  let ?arr = "\<lparr>time = current_time net, event_type = ARRIVAL, e_job_id = e_job_id ev,
               e_station_id = int next_station\<rparr>"
  have il: "i < length (stations net)" using next_served(1) by (rule py_index_less)
  have st: "stations net' = (stations net)[i := ?st']" unfolding next_served(7) by simp
  have eq: "event_queue net' = heappush (heappush (event_queue net) ?dep) ?arr"
    unfolding next_served(7) by simp
  note ss = start_service_Some[OF next_served(4)]
  have k: "add_mset k (mset (queue st2)) = mset (queue (stations net ! i))"
  proof -
    have "mset (queue (stations net ! i)) = mset (k # queue st2)"
      using ss by (metis queue_complete_service list.collapse)
    then show ?thesis by simp
  qed
  have "queued_jobs net' + mset (queue (stations net ! i)) = queued_jobs net + mset (queue ?st')"
    by (rule queued_jobs_update[OF il st])
  then have "add_mset k (queued_jobs net') + mset (queue (stations net ! i))
               = queued_jobs net + add_mset k (mset (queue st2))" by simp
  then have "add_mset k (queued_jobs net') + mset (queue (stations net ! i))
               = queued_jobs net + mset (queue (stations net ! i))"
    unfolding k by simp
  then have qj: "add_mset k (queued_jobs net') = queued_jobs net" by simp
  have "int (length (queue st2)) = int (length (queue (stations net ! i))) - 1"
    using ss by (simp add: of_nat_diff Suc_leI)
  then have jas: "jobs_at_stations net' = jobs_at_stations net - 1"
    using jobs_at_stations_update[OF il st] ss by simp
  have pa: "set (pending_arrivals net') = insert ?arr (set (pending_arrivals net))
            \<and> length (pending_arrivals net') = length (pending_arrivals net) + 1"
    by (auto simp: pending_arrivals_def eq filter_heappush)
  have "job_places net' = add_mset (e_job_id ev) (job_places net)"
    unfolding job_places_def eq using qj[symmetric] by simp
  moreover have "\<exists>a. event_type a = ARRIVAL \<and> e_job_id a = e_job_id ev \<and> time a = current_time net
            \<and> set (pending_arrivals net') = insert a (set (pending_arrivals net))"
    using pa by (intro exI[of _ ?arr]) simp
  ultimately show ?thesis using jas pa by (simp add: next_served(7))
qed

lemma handler_input_tracking:
  assumes "heappop (event_queue net) = Inr (ev, rest)"
  shows "job_places net = add_mset (e_job_id ev) (job_places (handler_input W net wd ev rest))"
    and "pending_arrivals (handler_input W net wd ev rest) = filter (\<lambda>e. event_type e = ARRIVAL) rest"
proof -
  show "job_places net = add_mset (e_job_id ev) (job_places (handler_input W net wd ev rest))"
    by (simp add: job_places_def mset_heappop[OF assms])
  show "pending_arrivals (handler_input W net wd ev rest) = filter (\<lambda>e. event_type e = ARRIVAL) rest"
    by (simp add: pending_arrivals_def)
qed

lemma tracked_run_iteration:
  assumes "run_iteration R W (net, wd, tr) = Inr (net', wd', tr')" and "tracked net"
  shows "tracked net'"
  using assms(1)
proof (cases rule: run_iteration_cases)
  case (1 ev rest)
  let ?net2 = "handler_input W net wd ev rest"
  let ?A = "\<lambda>e. event_type e = ARRIVAL"
  note hi = handler_input_tracking[OF 1(1), of W wd]
  have setq: "set (event_queue net) = insert ev (set rest)" by (rule set_heappop[OF 1(1)])
  have lenq: "length (filter ?A (event_queue net)) = length (filter ?A rest) + (if ?A ev then 1 else 0)"
    by (rule filter_heappop[OF 1(1)])
  from assms(2) have jp: "job_places net = mset [0..<nat (num_jobs net)]"
    and tr: "jobs_in_transit net \<subseteq> e_job_id ` set (filter ?A (event_queue net))"
    and cnt: "jobs_at_stations net + int (length (filter ?A (event_queue net))) = int (nat (num_jobs net))"
    by (simp_all add: tracked_def pending_arrivals_def)
  from 1(4) show ?thesis
  proof (elim disjE conjE)
    assume arr: "event_type ev = ARRIVAL" and pa: "process_arrival R ?net2 ev = Inr net'"
    note t = process_arrival_tracking[OF pa]
    have "job_places net' = mset [0..<nat (num_jobs net')]"
      using t hi(1) jp by simp
    moreover have "jobs_in_transit net' \<subseteq> e_job_id ` set (pending_arrivals net')"
    proof
      fix x assume "x \<in> jobs_in_transit net'"
      with t have x: "x \<in> jobs_in_transit net" "x \<noteq> e_job_id ev" by simp_all
      with tr obtain e where e: "e \<in> set (event_queue net)" "?A e" "e_job_id e = x" by auto
      with x setq have "e \<in> set rest" by auto
      with e t hi(2) show "x \<in> e_job_id ` set (pending_arrivals net')" by auto
    qed
    moreover have "jobs_at_stations net' + int (length (pending_arrivals net')) = int (nat (num_jobs net'))"
      using t hi(2) cnt lenq arr by simp
    ultimately show ?thesis by (simp add: tracked_def)
  next
    assume dep: "event_type ev = DEPARTURE" and pd: "process_departure R ?net2 ev = Inr net'"
    note t = process_departure_tracking[OF pd]
    from t obtain a where a: "event_type a = ARRIVAL" "e_job_id a = e_job_id ev"
      "set (pending_arrivals net') = insert a (set (pending_arrivals ?net2))" by blast
    have "job_places net' = mset [0..<nat (num_jobs net')]"
      using t hi(1) jp by simp
    moreover have "jobs_in_transit net' \<subseteq> e_job_id ` set (pending_arrivals net')"
    proof
      fix x assume "x \<in> jobs_in_transit net'"
      with t have "x = e_job_id ev \<or> x \<in> jobs_in_transit net" by simp
      then show "x \<in> e_job_id ` set (pending_arrivals net')"
      proof
        assume "x = e_job_id ev"
        with a show ?thesis by auto
      next
        assume "x \<in> jobs_in_transit net"
        with tr obtain e where e: "e \<in> set (event_queue net)" "?A e" "e_job_id e = x" by auto
        with dep setq have "e \<in> set rest" by auto
        with e a hi(2) show ?thesis by auto
      qed
    qed
    moreover have "jobs_at_stations net' + int (length (pending_arrivals net')) = int (nat (num_jobs net'))"
      using t hi(2) cnt lenq dep by simp
    ultimately show ?thesis by (simp add: tracked_def)
  qed
qed

lemma tracked_build:
  assumes "build R n_jobs matrix seed specs initial_station g = Inr net0"
  shows "tracked net0"
proof -
  let ?mk = "\<lambda>j. \<lparr>time = 0, event_type = ARRIVAL, e_job_id = j, e_station_id = initial_station\<rparr>"
  let ?A = "\<lambda>e. event_type e = ARRIVAL"
  note f = build_fields[OF assms]
  have st: "\<forall>st \<in> set (stations net0). queue st = [] \<and> servers_busy st = 0"
    by (rule build_stations[OF assms]) (simp add: new_station_def)
  have qj: "queued_jobs net0 = {#}"
    unfolding queued_jobs_def using st by (intro sum_list_all_zero) simp
  have jas: "jobs_at_stations net0 = 0"
    unfolding jobs_at_stations_def using st by (intro sum_list_all_zero) simp
  have "image_mset e_job_id (mset (event_queue net0)) = mset [0..<nat n_jobs]"
    unfolding f(1) by (simp add: comp_def flip: mset_map)
  then have "job_places net0 = mset [0..<nat (num_jobs net0)]"
    by (simp add: job_places_def qj f)
  moreover have "length (pending_arrivals net0) = nat n_jobs"
  proof -
    have "length (filter ?A (event_queue net0)) = size (filter_mset ?A (mset (event_queue net0)))"
      by (metis mset_filter size_mset)
    also have "\<dots> = length (filter ?A (map ?mk [0..<nat n_jobs]))"
      unfolding f(1) by (metis mset_filter size_mset)
    also have "filter ?A (map ?mk [0..<nat n_jobs]) = map ?mk [0..<nat n_jobs]"
      by (rule filter_True) simp
    finally show ?thesis by (simp add: pending_arrivals_def)
  qed
  ultimately show ?thesis by (simp add: tracked_def jas f)
qed

lemma reachable_tracked:
  assumes "build R n_jobs matrix seed specs initial_station g = Inr net0"
    and "reachable R T W net0 s"
  shows "tracked (fst s)"
  using assms(2)
proof (induction rule: reachable.induct)
  case at_call
  show ?case using tracked_build[OF assms(1)] by simp
next
  case (after_iteration s s')
  obtain net wd tr where s: "s = (net, wd, tr)" by (cases s)
  obtain net' wd' tr' where s': "s' = (net', wd', tr')" by (cases s')
  from after_iteration.hyps(3) after_iteration.IH show ?case
    unfolding s s' fst_conv by (rule tracked_run_iteration)
qed

lemma tracked_wip:
  assumes "tracked net"
  shows "wip net + int (pending_initial_arrivals net) = int (nat (num_jobs net))"
proof -
  let ?A = "\<lambda>e. event_type e = ARRIVAL"
  let ?T = "jobs_in_transit net"
  let ?As = "pending_arrivals net"
  from assms have jp: "job_places net = mset [0..<nat (num_jobs net)]"
    and tr: "?T \<subseteq> e_job_id ` set ?As"
    and cnt: "jobs_at_stations net + int (length ?As) = int (nat (num_jobs net))"
    by (simp_all add: tracked_def)
  have "mset (map e_job_id (event_queue net)) \<subseteq># job_places net"
    by (simp add: job_places_def)
  then have "distinct (map e_job_id (event_queue net))"
    unfolding jp by (rule distinct_mset_le) simp
  then have d: "distinct (map e_job_id ?As)"
    unfolding pending_arrivals_def by (rule distinct_map_filter)
  have "length (filter (\<lambda>e. e_job_id e \<in> ?T) ?As) = length (filter (\<lambda>x. x \<in> ?T) (map e_job_id ?As))"
    by (simp add: filter_map comp_def)
  also have "\<dots> = card ({x. x \<in> ?T} \<inter> set (map e_job_id ?As))"
    using d by (rule distinct_length_filter)
  also have "{x. x \<in> ?T} \<inter> set (map e_job_id ?As) = ?T" using tr by auto
  finally have inT: "length (filter (\<lambda>e. e_job_id e \<in> ?T) ?As) = card ?T" .
  have "pending_initial_arrivals net = length (filter (\<lambda>e. e_job_id e \<notin> ?T) ?As)"
    by (simp add: pending_initial_arrivals_def pending_arrivals_def)
  moreover have "length (filter (\<lambda>e. e_job_id e \<in> ?T) ?As)
                   + length (filter (\<lambda>e. \<not> e_job_id e \<in> ?T) ?As) = length ?As"
    by (rule sum_length_filter_compl)
  ultimately have "card ?T + pending_initial_arrivals net = length ?As"
    using inT by simp
  with cnt show ?thesis by (simp add: wip_def)
qed

subsection \<open>No event lies in the past\<close>

lemma generate_service_time_nonneg:
  assumes "nonnegative_draws R" and "generate_service_time R st g = Inr (d, g')"
  shows "0 \<le> d"
proof -
  from assms(2) have m: "0 \<le> mean_service_time st"
    and d: "draw_exponential R (mean_service_time st) g = (d, g')"
    by (auto simp: generate_service_time_def split: if_splits)
  from assms(1) m have "0 \<le> fst (draw_exponential R (mean_service_time st) g)"
    unfolding nonnegative_draws_def by blast
  with d show ?thesis by simp
qed

lemma process_arrival_schedule:
  assumes "process_arrival R net ev = Inr net'" and "nonnegative_draws R"
    and "is_heap (event_queue net)" and "\<forall>e \<in> set (event_queue net). current_time net \<le> time e"
  shows "current_time net' = current_time net \<and> is_heap (event_queue net')
         \<and> (\<forall>e \<in> set (event_queue net'). current_time net' \<le> time e)"
  using assms(1)
proof (cases rule: process_arrival_cases)
  case (queued i job)
  with assms(3,4) show ?thesis by simp
next
  case (served i job k st2 d g')
  from generate_service_time_nonneg[OF assms(2) served(5)] have "0 \<le> d" .
  with assms(3,4) show ?thesis unfolding served(6) by (simp add: is_heap_heappush)
qed

lemma process_departure_schedule:
  assumes "process_departure R net ev = Inr net'" and "nonnegative_draws R"
    and "is_heap (event_queue net)" and "\<forall>e \<in> set (event_queue net). current_time net \<le> time e"
  shows "current_time net' = current_time net \<and> is_heap (event_queue net')
         \<and> (\<forall>e \<in> set (event_queue net'). current_time net' \<le> time e)"
  using assms(1)
proof (cases rule: process_departure_cases)
  case (idle i job next_station g')
  with assms(3,4) show ?thesis by (simp add: is_heap_heappush)
next
  case (blocked i job st2 next_station g')
  with assms(3,4) show ?thesis by (simp add: is_heap_heappush)
next
  case (next_served i job k st2 d g1 next_job next_station g')
  from generate_service_time_nonneg[OF assms(2) next_served(5)] have "0 \<le> d" .
  with assms(3,4) show ?thesis unfolding next_served(7) by (simp add: is_heap_heappush)
qed

lemma timely_run_iteration:
  assumes "run_iteration R W (net, wd, tr) = Inr (net', wd', tr')" and "nonnegative_draws R"
    and "timely (net, wd, tr)"
  shows "timely (net', wd', tr')" and "current_time net \<le> current_time net'"
proof -
  from assms(3) have h: "is_heap (event_queue net)"
    and fut: "\<forall>e \<in> set (event_queue net). current_time net \<le> time e"
    and srt: "sorted (map time tr)" and past: "\<forall>e \<in> set tr. time e \<le> current_time net"
    by (simp_all add: timely_def)
  from assms(1) have "timely (net', wd', tr') \<and> current_time net \<le> current_time net'"
  proof (cases rule: run_iteration_cases)
    case (1 ev rest)
    let ?net2 = "handler_input W net wd ev rest"
    have "ev \<in> set (event_queue net)" using set_heappop[OF 1(1)] by simp
    with fut have clock: "current_time net \<le> time ev" by blast
    from heappop_heap[OF h 1(1)]
    have h2: "is_heap (event_queue ?net2)"
      and fut2: "\<forall>e \<in> set (event_queue ?net2). current_time ?net2 \<le> time e" by simp_all
    from 1(4) have "current_time net' = current_time ?net2 \<and> is_heap (event_queue net')
         \<and> (\<forall>e \<in> set (event_queue net'). current_time net' \<le> time e)"
    proof (elim disjE conjE)
      assume "process_arrival R ?net2 ev = Inr net'"
      then show ?thesis by (rule process_arrival_schedule[OF _ assms(2) h2 fut2])
    next
      assume "process_departure R ?net2 ev = Inr net'"
      then show ?thesis by (rule process_departure_schedule[OF _ assms(2) h2 fut2])
    qed
    then have "current_time net' = time ev \<and> is_heap (event_queue net')
         \<and> (\<forall>e \<in> set (event_queue net'). current_time net' \<le> time e)" by auto
    moreover have "sorted (map time (tr @ [ev]))"
      using srt past clock by (auto simp: sorted_append)
    moreover have "\<forall>e \<in> set (tr @ [ev]). time e \<le> time ev"
      using past clock by auto
    ultimately show ?thesis using clock by (auto simp: timely_def 1(2))
  qed
  then show "timely (net', wd', tr')" and "current_time net \<le> current_time net'" by simp_all
qed

lemma is_heap_fold_initialize_job:
  "is_heap (event_queue net) \<Longrightarrow> is_heap (event_queue (fold (initialize_job s) js net))"
  by (induction js arbitrary: net) (auto simp: initialize_job_def Let_def is_heap_heappush)

lemma timely_build:
  assumes "build R n_jobs matrix seed specs initial_station g = Inr net0"
  shows "timely (net0, False, [])"
proof -
  from assms obtain net where net: "init R n_jobs matrix seed g = Inr net"
    and net0: "net0 = initialize_jobs (add_stations net specs) initial_station"
    by (auto simp: build_def split: sum.splits)
  have "is_heap (event_queue (add_stations net specs))"
    using init_fields[OF net] by (simp add: is_heap_def)
  then have "is_heap (event_queue net0)"
    unfolding net0 initialize_jobs_def by (rule is_heap_fold_initialize_job)
  moreover have "\<forall>e \<in> set (event_queue net0). current_time net0 \<le> time e"
  proof -
    have "set_mset (mset (event_queue net0))
            = set_mset (mset (map (\<lambda>j. \<lparr>time = 0, event_type = ARRIVAL, e_job_id = j,
                              e_station_id = initial_station\<rparr>) [0..<nat n_jobs]))"
      using build_fields(1)[OF assms] by simp
    then have "set (event_queue net0)
            = set (map (\<lambda>j. \<lparr>time = 0, event_type = ARRIVAL, e_job_id = j,
                              e_station_id = initial_station\<rparr>) [0..<nat n_jobs])"
      by (simp only: set_mset_mset)
    then show ?thesis using build_fields(4)[OF assms] by auto
  qed
  ultimately show ?thesis by (simp add: timely_def)
qed

lemma reachable_timely:
  assumes "build R n_jobs matrix seed specs initial_station g = Inr net0"
    and "nonnegative_draws R" and "reachable R T W net0 s"
  shows "timely s"
  using assms(3)
proof (induction rule: reachable.induct)
  case at_call
  show ?case by (rule timely_build[OF assms(1)])
next
  case (after_iteration s s')
  obtain net wd tr where s: "s = (net, wd, tr)" by (cases s)
  obtain net' wd' tr' where s': "s' = (net', wd', tr')" by (cases s')
  from after_iteration.hyps(3) assms(2) after_iteration.IH show ?case
    unfolding s s' by (rule timely_run_iteration(1))
qed

subsection \<open>The initial arrivals are processed at time 0\<close>

lemma tracked_distinct_events:
  assumes "tracked net"
  shows "distinct (map e_job_id (event_queue net))"
proof -
  from assms have jp: "job_places net = mset [0..<nat (num_jobs net)]"
    by (simp add: tracked_def)
  have "mset (map e_job_id (event_queue net)) \<subseteq># job_places net"
    by (simp add: job_places_def)
  then show ?thesis unfolding jp by (rule distinct_mset_le) simp
qed

lemma popped_job_unique:
  assumes "tracked net" and "heappop (event_queue net) = Inr (ev, rest)" and "e \<in> set rest"
  shows "e_job_id e \<noteq> e_job_id ev"
proof
  assume eq: "e_job_id e = e_job_id ev"
  have d: "distinct (map e_job_id (event_queue net))" by (rule tracked_distinct_events[OF assms(1)])
  have "mset (map e_job_id (event_queue net))
          = add_mset (e_job_id ev) (mset (map e_job_id rest))"
    by (simp add: mset_heappop[OF assms(2)])
  then have "count (mset (map e_job_id (event_queue net))) (e_job_id ev)
               = Suc (count (mset (map e_job_id rest)) (e_job_id ev))" by simp
  moreover have "count (mset (map e_job_id (event_queue net))) (e_job_id ev) \<le> 1"
    using d by (simp add: distinct_count_atmost_1)
  ultimately have "count (mset (map e_job_id rest)) (e_job_id ev) = 0" by simp
  then have "e_job_id ev \<notin> set (map e_job_id rest)" by (simp add: count_eq_zero_iff)
  moreover from assms(3) have "e_job_id e \<in> set (map e_job_id rest)" by simp
  ultimately show False using eq by simp
qed

lemma initial_arrivals_at_zero_run_iteration:
  assumes "run_iteration R W (net, wd, tr) = Inr (net', wd', tr')" and "tracked net"
    and "initial_arrivals_at_zero net"
  shows "initial_arrivals_at_zero net'"
  using assms(1)
proof (cases rule: run_iteration_cases)
  case (1 ev rest)
  let ?net2 = "handler_input W net wd ev rest"
  have setq: "set (event_queue net) = insert ev (set rest)" by (rule set_heappop[OF 1(1)])
  have old: "time e = 0"
    if "e \<in> set rest" "event_type e = ARRIVAL" "e_job_id e \<notin> jobs_in_transit net" for e
    using that assms(3) setq by (auto simp: initial_arrivals_at_zero_def)
  from 1(4) show ?thesis
  proof (elim disjE conjE)
    assume pa: "process_arrival R ?net2 ev = Inr net'"
    have tr': "jobs_in_transit net' = jobs_in_transit net - {e_job_id ev}"
      using process_arrival_tracking[OF pa] by simp
    have arr: "e \<in> set rest" if "e \<in> set (event_queue net')" "event_type e = ARRIVAL" for e
      using pa that by (cases rule: process_arrival_cases) auto
    show ?thesis
      unfolding initial_arrivals_at_zero_def
    proof (intro ballI impI)
      fix e assume e: "e \<in> set (event_queue net')" "event_type e = ARRIVAL"
        "e_job_id e \<notin> jobs_in_transit net'"
      from arr[OF e(1,2)] have r: "e \<in> set rest" .
      with popped_job_unique[OF assms(2) 1(1)] have "e_job_id e \<noteq> e_job_id ev" by blast
      with e(3) tr' have nt: "e_job_id e \<notin> jobs_in_transit net" by simp
      show "time e = 0" by (rule old[OF r e(2) nt])
    qed
  next
    assume pd: "process_departure R ?net2 ev = Inr net'"
    have tr': "jobs_in_transit net' = insert (e_job_id ev) (jobs_in_transit net)"
      using process_departure_tracking[OF pd] by simp
    have arr: "e \<in> set rest \<or> e_job_id e = e_job_id ev"
      if "e \<in> set (event_queue net')" "event_type e = ARRIVAL" for e
      using pd that by (cases rule: process_departure_cases) auto
    show ?thesis
      unfolding initial_arrivals_at_zero_def
    proof (intro ballI impI)
      fix e assume e: "e \<in> set (event_queue net')" "event_type e = ARRIVAL"
        "e_job_id e \<notin> jobs_in_transit net'"
      from arr[OF e(1,2)] e(3) tr' have r: "e \<in> set rest" by auto
      from e(3) tr' have nt: "e_job_id e \<notin> jobs_in_transit net" by simp
      show "time e = 0" by (rule old[OF r e(2) nt])
    qed
  qed
qed

lemma initial_arrivals_at_zero_build:
  assumes "build R n_jobs matrix seed specs initial_station g = Inr net0"
  shows "initial_arrivals_at_zero net0"
proof -
  have "set_mset (mset (event_queue net0))
          = set_mset (mset (map (\<lambda>j. \<lparr>time = 0, event_type = ARRIVAL, e_job_id = j,
                            e_station_id = initial_station\<rparr>) [0..<nat n_jobs]))"
    using build_fields(1)[OF assms] by simp
  then have "set (event_queue net0)
          = set (map (\<lambda>j. \<lparr>time = 0, event_type = ARRIVAL, e_job_id = j,
                            e_station_id = initial_station\<rparr>) [0..<nat n_jobs])"
    by (simp only: set_mset_mset)
  then show ?thesis by (auto simp: initial_arrivals_at_zero_def)
qed

lemma reachable_initial_arrivals_at_zero:
  assumes "build R n_jobs matrix seed specs initial_station g = Inr net0"
    and "reachable R T W net0 s"
  shows "initial_arrivals_at_zero (fst s)"
  using assms(2)
proof (induction rule: reachable.induct)
  case at_call
  show ?case using initial_arrivals_at_zero_build[OF assms(1)] by simp
next
  case (after_iteration s s')
  obtain net wd tr where s: "s = (net, wd, tr)" by (cases s)
  obtain net' wd' tr' where s': "s' = (net', wd', tr')" by (cases s')
  have t: "tracked net" using reachable_tracked[OF assms(1) after_iteration.hyps(1)] by (simp add: s)
  from after_iteration.hyps(3) t after_iteration.IH show ?case
    unfolding s s' fst_conv by (rule initial_arrivals_at_zero_run_iteration)
qed

lemma no_pending_initial_arrivals:
  assumes "initial_arrivals_at_zero net"
    and "\<forall>e \<in> set (event_queue net). current_time net \<le> time e"
    and "0 < current_time net"
  shows "pending_initial_arrivals net = 0"
proof -
  have "\<not> (event_type e = ARRIVAL \<and> e_job_id e \<notin> jobs_in_transit net)"
    if "e \<in> set (event_queue net)" for e
  proof
    assume "event_type e = ARRIVAL \<and> e_job_id e \<notin> jobs_in_transit net"
    with assms(1) that have "time e = 0" by (auto simp: initial_arrivals_at_zero_def)
    moreover from assms(2) that have "current_time net \<le> time e" by blast
    ultimately show False using assms(3) by simp
  qed
  then show ?thesis by (simp add: pending_initial_arrivals_def)
qed

lemma reachable_num_jobs:
  assumes "reachable R T W net0 s"
  shows "num_jobs (fst s) = num_jobs net0"
  using assms
proof (induction rule: reachable.induct)
  case at_call
  show ?case by simp
next
  case (after_iteration s s')
  obtain n w t where s: "s = (n, w, t)" by (cases s)
  obtain n' w' t' where s': "s' = (n', w', t')" by (cases s')
  from after_iteration.hyps(3) have "num_jobs n' = num_jobs n"
    unfolding s s'
  proof (cases rule: run_iteration_cases)
    case (1 ev rest)
    then show ?thesis
      using process_arrival_tracking[of R "handler_input W n w ev rest" ev n']
            process_departure_tracking[of R "handler_input W n w ev rest" ev n']
      by auto
  qed
  with after_iteration.IH show ?case by (simp add: s s')
qed

lemma run_loop_final_aux:
  assumes "run_loop R T W s = Some r"
  shows "\<forall>s'. r = Inr s' \<longrightarrow> \<not> loop_condition T s'"
proof (rule run_loop.raw_induct
         [where P = "\<lambda>R T W s r. \<forall>s'. r = Inr s' \<longrightarrow> \<not> loop_condition T s'", OF _ assms])
  fix run_loop' :: "'a random_source \<Rightarrow> real \<Rightarrow> real \<Rightarrow> 'a run_state \<Rightarrow> (error + 'a run_state) option"
  fix R T W s r
  assume IH: "\<And>T W s b y. run_loop' T W s b = Some y \<Longrightarrow>
                \<forall>s'. y = Inr s' \<longrightarrow> \<not> loop_condition W s'"
  assume body: "(if loop_condition T s
                 then case run_iteration R W s of Inl e \<Rightarrow> Some (Inl e)
                      | Inr s' \<Rightarrow> run_loop' R T W s'
                 else Some (Inr s)) = Some r"
  show "\<forall>s'. r = Inr s' \<longrightarrow> \<not> loop_condition T s'"
  proof (intro allI impI)
    fix s'
    assume r: "r = Inr s'"
    show "\<not> loop_condition T s'"
    proof (cases "loop_condition T s")
      case False
      with body r show ?thesis by simp
    next
      case True
      with body r obtain s1 where s1: "run_iteration R W s = Inr s1" "run_loop' R T W s1 = Some r"
        by (auto split: sum.splits)
      with IH [OF s1(2)] r show ?thesis by blast
    qed
  qed
qed

lemma reachable_wip_sum:
  assumes "build R n_jobs matrix seed specs initial_station g = Inr net0"
    and "0 \<le> n_jobs"
    and "reachable R simulation_time warmup_time net0 (net, warmup_done, processed)"
  shows "wip net + int (pending_initial_arrivals net) = num_jobs net" and "num_jobs net = n_jobs"
proof -
  have "tracked net" using reachable_tracked[OF assms(1,3)] by simp
  then have "wip net + int (pending_initial_arrivals net) = int (nat (num_jobs net))"
    by (rule tracked_wip)
  moreover show "num_jobs net = n_jobs"
    using reachable_num_jobs[OF assms(3)] build_fields(3)[OF assms(1)] by simp
  ultimately show "wip net + int (pending_initial_arrivals net) = num_jobs net"
    using assms(2) by simp
qed

lemma reachable_no_pending_initial_arrivals:
  assumes "build R n_jobs matrix seed specs initial_station g = Inr net0"
    and "reachable R simulation_time warmup_time net0 (net, warmup_done, processed)"
    and "nonnegative_draws R"
    and "0 < current_time net
         \<or> (0 < simulation_time \<and> \<not> loop_condition simulation_time (net, warmup_done, processed))"
  shows "pending_initial_arrivals net = 0"
proof (cases "event_queue net = []")
  case True
  then show ?thesis by (simp add: pending_initial_arrivals_def)
next
  case False
  with assms(4) have clock: "0 < current_time net" by (auto simp: loop_condition_def)
  have "initial_arrivals_at_zero net"
    using reachable_initial_arrivals_at_zero[OF assms(1,2)] by simp
  moreover have "timely (net, warmup_done, processed)"
    by (rule reachable_timely[OF assms(1,3,2)])
  then have "\<forall>e \<in> set (event_queue net). current_time net \<le> time e"
    by (simp add: timely_def)
  ultimately show ?thesis using clock by (rule no_pending_initial_arrivals)
qed

section \<open>Statistics\<close>

text \<open>
  C2. The claim: the denominators of \<open>utilization\<close> and \<open>avg_queue_length\<close> are
  the time elapsed since the warmup reset. The code divides by \<open>last_update_time\<close>,
  the clock value of the station's last update. A run of two jobs on one single-server
  station with warmup 10 and horizon 14, with service times 4, 8, 2 and 6: the reset
  happens at clock 12, the run ends at clock 14 with 8 units of service time and a queue
  integral of 2 accumulated since the reset, and the code reports 8 / 14 and 2 / 14,
  not 8 / (14 - 10) and 2 / (14 - 10).
\<close>

theorem statistics_divide_by_clock_example:
  "(case simulate
           (table_source (\<lambda>g. if g = 0 then 4 else if g = 1 then 8 else if g = 3 then 2 else 6)
                         (\<lambda>g. 0))
           2 [[1]] (Some 0) [(1, 1)] 0 14 10 (0::nat) of
      Some (Inr (net, warmup_done, processed)) \<Rightarrow>
        warmup_done \<and> map time processed = [0, 0, 4, 4, 12, 12, 14]
        \<and> current_time net = 14
        \<and> num_servers (stations net ! 0) = 1
        \<and> total_service_time (stations net ! 0) = 8
        \<and> queue_length_sum (stations net ! 0) = 2
        \<and> utilization (stations net ! 0) = Some (8 / 14)
        \<and> utilization (stations net ! 0) \<noteq> Some (8 / (1 * (14 - 10)))
        \<and> avg_queue_length (stations net ! 0) = 2 / 14
        \<and> avg_queue_length (stations net ! 0) \<noteq> 2 / (14 - 10)
    | _ \<Rightarrow> False)"
  by (simp add: model_defs)

text \<open>
  C6. The claim: \<open>add_to_queue\<close> adds (queue length) * (now - last update) to the
  queue integral for every value of \<open>last_update_time\<close>, 0 included. The code adds it
  only when \<open>last_update_time\<close> is positive. A station whose queue holds one job and
  whose \<open>last_update_time\<close> is 0, at time 5: the integral stays 0, the claim says 5.
\<close>

theorem add_to_queue_counterexample:
  "queue_length_sum (add_to_queue example_station 8 5)
     \<noteq> queue_length_sum example_station
         + real (length (queue example_station)) * (5 - last_update_time example_station)"
  by (simp add: add_to_queue_def update_queue_stats_def example_station_def Let_def)

text \<open>
  C6, as amended. \<open>add_to_queue\<close> at time \<open>now\<close> adds (queue length before the
  call) * (now - last update) to the queue integral when \<open>last_update_time\<close> is
  positive and leaves the integral unchanged otherwise; in both cases it sets
  \<open>last_update_time\<close> to \<open>now\<close>, appends the job to the queue and adds one to
  \<open>total_arrivals\<close>.
\<close>

theorem add_to_queue_effect:
  "add_to_queue st j now =
     st\<lparr>queue_length_sum :=
          (if last_update_time st > 0
           then queue_length_sum st + real (length (queue st)) * (now - last_update_time st)
           else queue_length_sum st),
        last_update_time := now,
        queue := queue st @ [j],
        total_arrivals := total_arrivals st + 1\<rparr>"
  by (simp add: add_to_queue_def update_queue_stats_def Let_def)

section \<open>Construction\<close>

text \<open>
  C3. The claim: construction fails at once on an invalid routing matrix, a server count
  or mean service time that is not positive, or a population that is not positive. The
  constructor and \<open>add_station\<close> check none of these: a population of -1, the routing
  matrix [[0.5, 0.3]], and a station with 0 servers and mean service time -2 are accepted.
\<close>

theorem construction_counterexample:
  "(case init (table_source (\<lambda>g. 1) (\<lambda>g. 0)) (- 1) [[1 / 2, 3 / 10]] (Some 42) (0::nat) of
      Inl e \<Rightarrow> False
    | Inr net \<Rightarrow>
        num_jobs net = - 1 \<and> routing_matrix net = [[1 / 2, 3 / 10]]
        \<and> fst (add_station net 0 (- 2)) = 0
        \<and> map num_servers (stations (snd (add_station net 0 (- 2)))) = [0]
        \<and> map mean_service_time (stations (snd (add_station net 0 (- 2)))) = [- 2])"
  by (simp add: init_def add_station_def new_station_def Let_def)

text \<open>
  C3, as amended. Construction validates nothing but the seed: for every population,
  routing matrix, server count and mean service time, and every seed that is absent or
  lies in \<open>0 .. 2^32 - 1\<close>, the constructor succeeds and stores the population and the
  matrix as given, and \<open>add_station\<close> appends a station with the server count and mean
  as given.
\<close>

theorem construction_validates_nothing:
  "seed = None \<or> (\<exists>s. seed = Some s \<and> 0 \<le> s \<and> s < 2 ^ 32) \<Longrightarrow>
   \<exists>net. init R n_jobs matrix seed g = Inr net
       \<and> num_jobs net = n_jobs \<and> routing_matrix net = matrix
       \<and> num_stations net = length matrix \<and> stations net = []
       \<and> stations (snd (add_station net n_servers mean)) = [new_station 0 n_servers mean]
       \<and> num_servers (new_station 0 n_servers mean) = n_servers
       \<and> mean_service_time (new_station 0 n_servers mean) = mean"
  by (auto simp: init_def add_station_def new_station_def Let_def)

theorem construction_validates_nothing_witness:
  "\<exists>net. init (table_source (\<lambda>g. 1) (\<lambda>g. 0)) 0 [[1 / 5, 1 / 5]] None (0::nat) = Inr net
       \<and> num_jobs net = 0 \<and> routing_matrix net = [[1 / 5, 1 / 5]]
       \<and> num_stations net = 1 \<and> stations net = []
       \<and> stations (snd (add_station net (- 3) 0)) = [new_station 0 (- 3) 0]
       \<and> num_servers (new_station 0 (- 3) 0) = - 3
       \<and> mean_service_time (new_station 0 (- 3) 0) = 0"
  using construction_validates_nothing
          [of None "table_source (\<lambda>g. 1) (\<lambda>g. 0)" 0 "[[1 / 5, 1 / 5]]" "0::nat" "- 3" 0]
  by simp

text \<open>
  A routing row that does not sum to 1 is noticed only when the first departure draws the
  next station: the run raises there.
\<close>

lemma invalid_routing_row_raises_in_run:
  "simulate (table_source (\<lambda>g. 1) (\<lambda>g. 0)) 1 [[1 / 2]] (Some 42) [(1, 1)] 0 10 0 (0::nat)
     = Some (Inl ValueError)"
  by (simp add: model_defs)

section \<open>The warmup reset\<close>

text \<open>
  C4. When the loop pops an event whose time has reached the warmup threshold and the
  warmup flag is not yet set, the handler runs on the network after
  \<open>reset_statistics\<close>. In that network every station's \<open>total_arrivals\<close>,
  \<open>total_departures\<close>, \<open>total_service_time\<close> and \<open>queue_length_sum\<close> are zero
  and its \<open>last_update_time\<close> is the clock, \<open>total_completions\<close> is zero, and the
  queues, the busy servers, the jobs in transit, the pending events, the clock, the jobs
  and the generator are those before the reset.
\<close>

theorem warmup_reset_frame:
  "heappop (event_queue net) = Inr (event, rest) \<Longrightarrow> \<not> warmup_done \<Longrightarrow>
   warmup_time \<le> time event \<Longrightarrow>
   (let before = net\<lparr>event_queue := rest, current_time := time event\<rparr>;
        after = reset_statistics before
    in run_iteration R warmup_time (net, warmup_done, processed)
         = (case (case event_type event of
                    ARRIVAL \<Rightarrow> process_arrival R after event
                  | DEPARTURE \<Rightarrow> process_departure R after event) of
              Inl e \<Rightarrow> Inl e
            | Inr net3 \<Rightarrow> Inr (net3, True, processed @ [event]))
       \<and> (\<forall>st \<in> set (stations after).
             total_arrivals st = 0 \<and> total_departures st = 0 \<and> total_service_time st = 0
             \<and> queue_length_sum st = 0 \<and> last_update_time st = current_time after)
       \<and> total_completions after = 0
       \<and> map queue (stations after) = map queue (stations before)
       \<and> map servers_busy (stations after) = map servers_busy (stations before)
       \<and> map num_servers (stations after) = map num_servers (stations before)
       \<and> jobs_in_transit after = jobs_in_transit before
       \<and> event_queue after = event_queue before
       \<and> current_time after = current_time before
       \<and> jobs after = jobs before
       \<and> rng after = rng before)"
  unfolding Let_def
  apply (intro conjI)
  subgoal by (simp add: run_iteration_def Let_def)
  by (auto simp: reset_statistics_def reset_statistics_station_def)

theorem warmup_reset_frame_witness:
  "heappop (event_queue example_network)
     = Inr (\<lparr>time = 12, event_type = DEPARTURE, e_job_id = 3, e_station_id = 0\<rparr>, [])
   \<and> (10::real) \<le> 12
   \<and> map total_service_time
        (stations (reset_statistics (example_network\<lparr>event_queue := [], current_time := 12\<rparr>))) = [0]
   \<and> map queue_length_sum
        (stations (reset_statistics (example_network\<lparr>event_queue := [], current_time := 12\<rparr>))) = [0]
   \<and> map last_update_time
        (stations (reset_statistics (example_network\<lparr>event_queue := [], current_time := 12\<rparr>))) = [12]
   \<and> map queue
        (stations (reset_statistics (example_network\<lparr>event_queue := [], current_time := 12\<rparr>))) = [[7]]
   \<and> map servers_busy
        (stations (reset_statistics (example_network\<lparr>event_queue := [], current_time := 12\<rparr>))) = [1]
   \<and> total_completions
        (reset_statistics (example_network\<lparr>event_queue := [], current_time := 12\<rparr>)) = 0"
  using warmup_reset_frame
          [of example_network "\<lparr>time = 12, event_type = DEPARTURE, e_job_id = 3, e_station_id = 0\<rparr>"
              "[]" False 10 "table_source (\<lambda>g. 1) (\<lambda>g. 0)" "[]"]
  by (simp add: example_network_def example_station_def heappop_def Let_def
                reset_statistics_def reset_statistics_station_def)

section \<open>Determinism\<close>

text \<open>
  C7. Two runs with the same seed and the same configuration give the same result: the
  same events processed in the same order and the same final network with its statistics
  (or both raise the same error, or neither returns). The constructor seeds the
  process-wide generator, so nothing of the generator's earlier state \<open>g\<close> or
  \<open>g'\<close> reaches the run; all other inputs of the run are its configuration.
\<close>

theorem seeded_run_deterministic:
  "simulate R n_jobs matrix (Some s) specs initial_station simulation_time warmup_time g
     = simulate R n_jobs matrix (Some s) specs initial_station simulation_time warmup_time g'"
  by (simp add: simulate_def build_def init_def)

text \<open>Without a seed the run continues from whatever state the generator is in.\<close>

lemma unseeded_run_depends_on_generator:
  "simulate (table_source (\<lambda>g. 1 + real g) (\<lambda>g. 0)) 1 [[1]] None [(1, 1)] 0 1 0 (0::nat)
     \<noteq> simulate (table_source (\<lambda>g. 1 + real g) (\<lambda>g. 0)) 1 [[1]] None [(1, 1)] 0 1 0 (5::nat)"
  by (simp add: model_defs)

section \<open>Work in process\<close>

text \<open>
  C1. The claim: after every processed event the work in process equals the population.
  Two jobs on one single-server station: after the first arrival has been processed one
  job is in service, the other job's first arrival is still pending and is not counted as
  in transit, so the work in process is 1 and the population is 2.
\<close>

theorem wip_conservation_counterexample:
  "(case build (table_source (\<lambda>g. 4) (\<lambda>g. 0)) 2 [[1]] (Some 0) [(1, 1)] 0 (0::nat) of
      Inl e \<Rightarrow> False
    | Inr net0 \<Rightarrow>
        (case run_steps (table_source (\<lambda>g. 4) (\<lambda>g. 0)) 100 0 1 (net0, False, []) of
           Inl e \<Rightarrow> False
         | Inr (net, warmup_done, processed) \<Rightarrow>
             reachable (table_source (\<lambda>g. 4) (\<lambda>g. 0)) 100 0 net0 (net, warmup_done, processed)
             \<and> length processed = 1 \<and> wip net = 1 \<and> num_jobs net = 2))"
proof -
  have "case build (table_source (\<lambda>g. 4) (\<lambda>g. 0)) 2 [[1]] (Some 0) [(1, 1)] 0 (0::nat) of
          Inl e \<Rightarrow> False
        | Inr net0 \<Rightarrow>
            (case run_steps (table_source (\<lambda>g. 4) (\<lambda>g. 0)) 100 0 1 (net0, False, []) of
               Inl e \<Rightarrow> False
             | Inr (net, warmup_done, processed) \<Rightarrow>
                 length processed = 1 \<and> wip net = 1 \<and> num_jobs net = 2)"
    by (simp add: model_defs wip_def jobs_at_stations_def)
  then obtain net0 net wd tr where
    b: "build (table_source (\<lambda>g. 4) (\<lambda>g. 0)) 2 [[1]] (Some 0) [(1, 1)] 0 (0::nat) = Inr net0"
    and r: "run_steps (table_source (\<lambda>g. 4) (\<lambda>g. 0)) 100 0 1 (net0, False, []) = Inr (net, wd, tr)"
    and p: "length tr = 1" "wip net = 1" "num_jobs net = 2"
    by (auto split: sum.splits prod.splits simp del: run_steps.simps)
  have "reachable (table_source (\<lambda>g. 4) (\<lambda>g. 0)) 100 0 net0 (net, wd, tr)"
    using reachable_run_steps[OF reachable.at_call r] .
  with b r p show ?thesis by (simp del: run_steps.simps)
qed

text \<open>
  C1, as amended. For a population that is not negative, in the state at the call of
  \<open>run\<close> and after every processed event, the work in process plus the number of
  initial arrivals still pending equals the population. So the work in process equals
  the population whenever no initial arrival is pending; with service durations that are
  not negative this is the case in every state whose clock is past 0, and in the state
  in which the loop of a run with a positive horizon ends.
\<close>

theorem wip_conservation:
  assumes "build R n_jobs matrix seed specs initial_station g = Inr net0"
    and "0 \<le> n_jobs"
    and "reachable R simulation_time warmup_time net0 (net, warmup_done, processed)"
  shows "wip net + int (pending_initial_arrivals net) = num_jobs net
         \<and> num_jobs net = n_jobs
         \<and> (pending_initial_arrivals net = 0 \<longrightarrow> wip net = num_jobs net)
         \<and> (nonnegative_draws R \<longrightarrow> 0 < current_time net \<longrightarrow> wip net = num_jobs net)
         \<and> (nonnegative_draws R \<longrightarrow> 0 < simulation_time \<longrightarrow>
              \<not> loop_condition simulation_time (net, warmup_done, processed) \<longrightarrow>
              wip net = num_jobs net)"
proof -
  note sum = reachable_wip_sum[OF assms]
  have "wip net = num_jobs net"
    if "nonnegative_draws R"
      and "0 < current_time net
           \<or> (0 < simulation_time \<and> \<not> loop_condition simulation_time (net, warmup_done, processed))"
    using reachable_no_pending_initial_arrivals[OF assms(1,3) that] sum(1) by simp
  with sum show ?thesis by simp
qed

theorem wip_conservation_witness:
  "\<exists>net0 net warmup_done processed.
     build (table_source (\<lambda>g. 4) (\<lambda>g. 0)) 2 [[1]] (Some 0) [(1, 1)] 0 (0::nat) = Inr net0
     \<and> (0::int) \<le> 2
     \<and> reachable (table_source (\<lambda>g. 4) (\<lambda>g. 0)) 4 0 net0 (net, warmup_done, processed)
     \<and> nonnegative_draws (table_source (\<lambda>g. 4) (\<lambda>g. 0))
     \<and> 0 < current_time net \<and> (0::real) < 4
     \<and> \<not> loop_condition 4 (net, warmup_done, processed)
     \<and> length processed = 3
     \<and> jobs_in_transit net = {0}
     \<and> pending_initial_arrivals net = 0
     \<and> wip net = 2 \<and> num_jobs net = 2"
proof -
  let ?R = "table_source (\<lambda>g. 4) (\<lambda>g. 0)"
  have n: "nonnegative_draws ?R"
    by (simp add: nonnegative_draws_def table_source_def)
  have "case build ?R 2 [[1]] (Some 0) [(1, 1)] 0 (0::nat) of
          Inl e \<Rightarrow> False
        | Inr net0 \<Rightarrow>
            (case run_steps ?R 4 0 3 (net0, False, []) of
               Inl e \<Rightarrow> False
             | Inr (net, warmup_done, processed) \<Rightarrow>
                 length processed = 3 \<and> jobs_in_transit net = {0}
                 \<and> pending_initial_arrivals net = 0 \<and> current_time net = 4
                 \<and> \<not> loop_condition 4 (net, warmup_done, processed))"
    by (simp add: model_defs eval_nat_numeral pending_initial_arrivals_def)
  then obtain net0 net wd tr where
    b: "build ?R 2 [[1]] (Some 0) [(1, 1)] 0 (0::nat) = Inr net0"
    and r: "run_steps ?R 4 0 3 (net0, False, []) = Inr (net, wd, tr)"
    and p: "length tr = 3" "jobs_in_transit net = {0}" "pending_initial_arrivals net = 0"
           "current_time net = 4" "\<not> loop_condition 4 (net, wd, tr)"
    by (auto split: sum.splits prod.splits)
  have reach: "reachable ?R 4 0 net0 (net, wd, tr)"
    using reachable_run_steps[OF reachable.at_call r] .
  from wip_conservation[OF b _ reach] n p b reach show ?thesis
    by (intro exI[of _ net0] exI[of _ net] exI[of _ wd] exI[of _ tr]) simp
qed

text \<open>
  In particular the work in process equals the population when \<open>run\<close> returns, as
  the repository's test checks.
\<close>

lemma wip_conserved_at_run_end:
  assumes "build R n_jobs matrix seed specs initial_station g = Inr net0"
    and "0 \<le> n_jobs" and "nonnegative_draws R" and "0 < simulation_time"
    and "run R net0 simulation_time warmup_time = Some (Inr (net, warmup_done, processed))"
  shows "wip net = num_jobs net"
proof -
  from assms(5) have r: "run_loop R simulation_time warmup_time (net0, False, [])
                           = Some (Inr (net, warmup_done, processed))"
    by (simp add: run_def)
  have reach: "reachable R simulation_time warmup_time net0 (net, warmup_done, processed)"
    using reachable_run_loop[OF r reachable.at_call] .
  have "\<not> loop_condition simulation_time (net, warmup_done, processed)"
    using run_loop_final_aux[OF r] by blast
  with assms(4) have "pending_initial_arrivals net = 0"
    by (intro reachable_no_pending_initial_arrivals[OF assms(1) reach assms(3)]) simp
  with reachable_wip_sum(1)[OF assms(1,2) reach] show ?thesis by simp
qed

section \<open>Stations in a run\<close>



text \<open>
  C5. When the loop processes an arrival event for job \<open>j\<close> at station \<open>S\<close> at
  time \<open>t\<close>: the job is removed from the jobs in transit and appended to the queue of
  \<open>S\<close>; if \<open>start_service\<close> then takes a job, it is the head of that queue, a
  service time \<open>d\<close> is drawn and added to the station's \<open>total_service_time\<close>, the
  visit \<open>(S, t, t + d)\<close> is appended to the history of the job taken, and a departure
  of that job from \<open>S\<close> at \<open>t + d\<close> is scheduled; if it takes none, no job's
  history and no pending event changes.
\<close>

theorem arrival_processing:
  assumes "build R n_jobs matrix seed specs initial_station g = Inr net0"
    and "reachable R T W net0 (net, wd, tr)"
    and "heappop (event_queue net) = Inr (ev, rest)" and "event_type ev = ARRIVAL"
    and "run_iteration R W (net, wd, tr) = Inr (net', wd', tr')"
  shows "\<exists>i. py_index (stations net) (e_station_id ev) = Inr i
          \<and> jobs_in_transit net' = jobs_in_transit net - {e_job_id ev}
          \<and> (let net2 = handler_input W net wd ev rest;
                  st1 = add_to_queue (stations net2 ! i) (e_job_id ev) (time ev)
              in queue st1 = queue (stations net ! i) @ [e_job_id ev]
                 \<and> (case start_service st1 (time ev) of
                       (None, st2) \<Rightarrow>
                         stations net' = (stations net2)[i := st2]
                         \<and> jobs net' = jobs net \<and> event_queue net' = rest
                     | (Some k, st2) \<Rightarrow>
                         k = hd (queue st1)
                         \<and> (case draw_exponential R (mean_service_time st2) (rng net) of
                               (d, g') \<Rightarrow>
                                 stations net'
                                   = (stations net2)
                                       [i := st2\<lparr>total_service_time := total_service_time st2 + d\<rparr>]
                                 \<and> (\<exists>job. jobs net k = Some job
                                       \<and> jobs net' = (jobs net)(k \<mapsto>
                                            job\<lparr>station_visits := station_visits job
                                                  @ [(e_station_id ev, time ev, time ev + d)]\<rparr>))
                                 \<and> event_queue net'
                                     = heappush rest
                                         \<lparr>time = time ev + d, event_type = DEPARTURE,
                                          e_job_id = k, e_station_id = e_station_id ev\<rparr>)))"
proof -
  let ?net2 = "handler_input W net wd ev rest"
  from assms(5) assms(3,4) have pa: "process_arrival R ?net2 ev = Inr net'"
    by (cases rule: run_iteration_cases) auto
  have ok: "\<forall>st \<in> set (stations ?net2). station_ok st"
    using reachable_station_ok[OF assms(1,2)] by (simp add: station_ok_handler_input)
  have idx: "py_index (stations ?net2) e = py_index (stations net) e" for e
    by (simp add: py_index_def)
  from pa show ?thesis
  proof (cases rule: process_arrival_cases)
    case (queued i job)
    let ?st1 = "add_to_queue (stations ?net2 ! i) (e_job_id ev) (time ev)"
    from queued(1) have il: "i < length (stations net)" using py_index_less[of "stations ?net2"] by simp
    have "start_service ?st1 (time ev) = (None, ?st1)"
      using queued(3) by (intro start_service_unavailable) simp_all
    with queued il show ?thesis
      by (intro exI[of _ i]) (simp add: idx Let_def queue_handler_input)
  next
    case (served i job k st2 d g')
    let ?st1 = "add_to_queue (stations ?net2 ! i) (e_job_id ev) (time ev)"
    from served(1) have il: "i < length (stations net)" using py_index_less[of "stations ?net2"] by simp
    then have "stations ?net2 ! i \<in> set (stations ?net2)" by simp
    with ok have "station_ok (stations ?net2 ! i)" by blast
    with served(3) have empty: "queue (stations ?net2 ! i) = []" by (auto simp: station_ok_def)
    from served(4) have st: "start_service ?st1 (time ev) = (Some k, st2)" by simp
    from start_service_Some[OF st] empty have k: "k = e_job_id ev" "k = hd (queue ?st1)" by simp_all
    from served(5) have d: "draw_exponential R (mean_service_time st2) (rng net) = (d, g')"
      by (auto simp: generate_service_time_def split: if_splits)
    from served il st k d show ?thesis
      by (intro exI[of _ i]) (simp add: idx Let_def queue_handler_input)
  qed
qed

theorem arrival_processing_witness:
  "\<exists>net0 ev rest net' wd' tr'.
     build (table_source (\<lambda>g. 4) (\<lambda>g. 0)) 2 [[1]] (Some 0) [(1, 1)] 0 (0::nat) = Inr net0
     \<and> reachable (table_source (\<lambda>g. 4) (\<lambda>g. 0)) 100 0 net0 (net0, False, [])
     \<and> heappop (event_queue net0) = Inr (ev, rest)
     \<and> event_type ev = ARRIVAL
     \<and> run_iteration (table_source (\<lambda>g. 4) (\<lambda>g. 0)) 0 (net0, False, []) = Inr (net', wd', tr')
     \<and> e_job_id ev = 0 \<and> time ev = 0
     \<and> jobs_in_transit net' = {}
     \<and> map queue (stations net') = [[]]
     \<and> map total_service_time (stations net') = [4]
     \<and> jobs net' 0 = Some \<lparr>job_id = 0, arrival_time = 0, completion_time = 0,
                             station_visits = [(0, 0, 4)]\<rparr>
     \<and> map (\<lambda>e. (time e, event_type e, e_job_id e)) (event_queue net')
         = [(0, ARRIVAL, 1), (4, DEPARTURE, 0)]"
proof -
  let ?R = "table_source (\<lambda>g. 4) (\<lambda>g. 0)"
  have "case build ?R 2 [[1]] (Some 0) [(1, 1)] 0 (0::nat) of
          Inl e \<Rightarrow> False
        | Inr net0 \<Rightarrow>
            (case heappop (event_queue net0) of
               Inl e \<Rightarrow> False
             | Inr (ev, rest) \<Rightarrow>
                 (case run_iteration ?R 0 (net0, False, []) of
                    Inl e \<Rightarrow> False
                  | Inr (net', wd', tr') \<Rightarrow>
                      event_type ev = ARRIVAL \<and> e_job_id ev = 0 \<and> time ev = 0
                      \<and> jobs_in_transit net' = {}
                      \<and> map queue (stations net') = [[]]
                      \<and> map total_service_time (stations net') = [4]
                      \<and> jobs net' 0 = Some \<lparr>job_id = 0, arrival_time = 0, completion_time = 0,
                                              station_visits = [(0, 0, 4)]\<rparr>
                      \<and> map (\<lambda>e. (time e, event_type e, e_job_id e)) (event_queue net')
                          = [(0, ARRIVAL, 1), (4, DEPARTURE, 0)]))"
    by (simp add: model_defs)
  then obtain net0 ev rest net' wd' tr' where
    b: "build ?R 2 [[1]] (Some 0) [(1, 1)] 0 (0::nat) = Inr net0"
    and pop: "heappop (event_queue net0) = Inr (ev, rest)"
    and it: "run_iteration ?R 0 (net0, False, []) = Inr (net', wd', tr')"
    and arr: "event_type ev = ARRIVAL"
    and p: "e_job_id ev = 0" "time ev = 0" "jobs_in_transit net' = {}"
           "map queue (stations net') = [[]]" "map total_service_time (stations net') = [4]"
           "jobs net' 0 = Some \<lparr>job_id = 0, arrival_time = 0, completion_time = 0,
                                  station_visits = [(0, 0, 4)]\<rparr>"
           "map (\<lambda>e. (time e, event_type e, e_job_id e)) (event_queue net')
              = [(0, ARRIVAL, 1), (4, DEPARTURE, 0)]"
    by (auto split: sum.splits prod.splits)
  have reach: "reachable ?R 100 0 net0 (net0, False, [])" by (rule reachable.at_call)
  from arrival_processing[OF b reach pop arr it] b reach pop arr it p show ?thesis
    by (intro exI[of _ net0] exI[of _ ev] exI[of _ rest] exI[of _ net'] exI[of _ wd'] exI[of _ tr'])
       simp
qed

section \<open>The clock\<close>

text \<open>
  C8. With a sampler whose durations are not negative, in the state at the call of
  \<open>run\<close> and after every processed event: no pending event is earlier than the
  clock (so none was scheduled before the clock of the pass that scheduled it), the
  events processed so far are in the order of their times and none is later than the
  clock, and the next pass of the loop does not move the clock back and again leaves no
  pending event earlier than the clock.
\<close>

theorem clock_monotone:
  assumes "build R n_jobs matrix seed specs initial_station g = Inr net0"
    and "nonnegative_draws R"
    and "reachable R simulation_time warmup_time net0 (net, warmup_done, processed)"
  shows "(\<forall>e \<in> set (event_queue net). current_time net \<le> time e)
         \<and> sorted (map time processed)
         \<and> (\<forall>e \<in> set processed. time e \<le> current_time net)
         \<and> (\<forall>net' warmup_done' processed'.
               run_iteration R warmup_time (net, warmup_done, processed)
                 = Inr (net', warmup_done', processed') \<longrightarrow>
               current_time net \<le> current_time net'
               \<and> (\<forall>e \<in> set (event_queue net'). current_time net' \<le> time e))"
proof -
  have t: "timely (net, warmup_done, processed)"
    by (rule reachable_timely[OF assms])
  have "current_time net \<le> current_time net'
        \<and> (\<forall>e \<in> set (event_queue net'). current_time net' \<le> time e)"
    if "run_iteration R warmup_time (net, warmup_done, processed)
          = Inr (net', warmup_done', processed')" for net' warmup_done' processed'
    using timely_run_iteration[OF that assms(2) t] by (simp add: timely_def)
  with t show ?thesis by (simp add: timely_def)
qed

theorem clock_monotone_witness:
  "nonnegative_draws (table_source (\<lambda>g. 4) (\<lambda>g. 0))
   \<and> (\<exists>net0 net warmup_done processed.
        build (table_source (\<lambda>g. 4) (\<lambda>g. 0)) 2 [[1]] (Some 0) [(1, 1)] 0 (0::nat) = Inr net0
        \<and> reachable (table_source (\<lambda>g. 4) (\<lambda>g. 0)) 100 0 net0 (net, warmup_done, processed)
        \<and> map time processed = [0, 0, 4]
        \<and> current_time net = 4
        \<and> map time (event_queue net) = [4, 8]
        \<and> sorted (map time processed))"
proof -
  let ?R = "table_source (\<lambda>g. 4) (\<lambda>g. 0)"
  have n: "nonnegative_draws ?R"
    by (simp add: nonnegative_draws_def table_source_def)
  have "case build ?R 2 [[1]] (Some 0) [(1, 1)] 0 (0::nat) of
          Inl e \<Rightarrow> False
        | Inr net0 \<Rightarrow>
            (case run_steps ?R 100 0 3 (net0, False, []) of
               Inl e \<Rightarrow> False
             | Inr (net, warmup_done, processed) \<Rightarrow>
                 map time processed = [0, 0, 4] \<and> current_time net = 4
                 \<and> map time (event_queue net) = [4, 8])"
    by (simp add: model_defs eval_nat_numeral)
  then obtain net0 net wd tr where
    b: "build ?R 2 [[1]] (Some 0) [(1, 1)] 0 (0::nat) = Inr net0"
    and r: "run_steps ?R 100 0 3 (net0, False, []) = Inr (net, wd, tr)"
    and p: "map time tr = [0, 0, 4]" "current_time net = 4" "map time (event_queue net) = [4, 8]"
    by (auto split: sum.splits prod.splits)
  have reach: "reachable ?R 100 0 net0 (net, wd, tr)"
    using reachable_run_steps[OF reachable.at_call r] .
  from clock_monotone[OF b n reach] have "sorted (map time tr)" by simp
  with n p b reach show ?thesis
    by (intro conjI exI[of _ net0] exI[of _ net] exI[of _ wd] exI[of _ tr]) simp_all
qed

section \<open>Utilization above one\<close>

text \<open>
  C10. Whenever a handler starts a service, the whole drawn duration \<open>d\<close> is added
  to the station's \<open>total_service_time\<close> at once, while the clock stays and the
  departure, at which that service ends, is scheduled \<open>d\<close> after the clock. So
  there is a configuration and a random source with a state of the run in which a
  station's \<open>utilization\<close> is above 1: two jobs on one single-server station,
  service times 4 and 8; when the first job departs at clock 4 the second starts, 12
  units of service are on the account, and the utilization is 12 / 4.
\<close>

theorem utilization_exceeds_one:
  "(\<forall>(R :: 'g random_source) net ev net' i.
      process_arrival R net ev = Inr net' \<longrightarrow>
      py_index (stations net) (e_station_id ev) = Inr i \<longrightarrow>
      is_available (stations net ! i) \<longrightarrow>
      (let d = fst (draw_exponential R (mean_service_time (stations net ! i)) (rng net))
       in total_service_time (stations net' ! i) = total_service_time (stations net ! i) + d
          \<and> current_time net' = current_time net
          \<and> (\<exists>k. event_queue net'
                 = heappush (event_queue net)
                     \<lparr>time = current_time net + d, event_type = DEPARTURE,
                      e_job_id = k, e_station_id = e_station_id ev\<rparr>)))
   \<and> (\<forall>(R :: 'g random_source) net ev net' i k st2.
      process_departure R net ev = Inr net' \<longrightarrow>
      py_index (stations net) (e_station_id ev) = Inr i \<longrightarrow>
      queue (stations net ! i) \<noteq> [] \<longrightarrow>
      start_service (complete_service (stations net ! i) (current_time net)) (current_time net)
        = (Some k, st2) \<longrightarrow>
      (let d = fst (draw_exponential R (mean_service_time (stations net ! i)) (rng net))
       in total_service_time (stations net' ! i) = total_service_time (stations net ! i) + d
          \<and> current_time net' = current_time net
          \<and> (\<exists>a. event_queue net'
                 = heappush
                     (heappush (event_queue net)
                        \<lparr>time = current_time net + d, event_type = DEPARTURE,
                         e_job_id = k, e_station_id = e_station_id ev\<rparr>) a)))
   \<and> (\<exists>(R :: nat random_source) n_jobs matrix seed specs initial_station g
         simulation_time warmup_time net0 net warmup_done processed u.
        build R n_jobs matrix seed specs initial_station g = Inr net0
        \<and> reachable R simulation_time warmup_time net0 (net, warmup_done, processed)
        \<and> utilization (stations net ! 0) = Some u \<and> 1 < u)"
proof (intro conjI allI impI)
  fix R :: "'g random_source" and net ev net' i
  assume pa: "process_arrival R net ev = Inr net'"
    and i: "py_index (stations net) (e_station_id ev) = Inr i"
    and av: "is_available (stations net ! i)"
  from pa show "let d = fst (draw_exponential R (mean_service_time (stations net ! i)) (rng net))
       in total_service_time (stations net' ! i) = total_service_time (stations net ! i) + d
          \<and> current_time net' = current_time net
          \<and> (\<exists>k. event_queue net'
                 = heappush (event_queue net)
                     \<lparr>time = current_time net + d, event_type = DEPARTURE,
                      e_job_id = k, e_station_id = e_station_id ev\<rparr>)"
  proof (cases rule: process_arrival_cases)
    case (queued i' job)
    with i av show ?thesis by simp
  next
    case (served i' job k st2 d g')
    with i have [simp]: "i' = i" by simp
    have il: "i < length (stations net)" using i by (rule py_index_less)
    from served(5) have d: "draw_exponential R (mean_service_time st2) (rng net) = (d, g')"
      by (auto simp: generate_service_time_def split: if_splits)
    from start_service_Some[OF served(4)] start_service_total_service_time[OF served(4)]
    have "mean_service_time st2 = mean_service_time (stations net ! i)"
      "total_service_time st2 = total_service_time (stations net ! i)" by simp_all
    with d il show ?thesis unfolding served(6) by (auto simp: Let_def)
  qed
next
  fix R :: "'g random_source" and net ev net' i k st2
  assume pd: "process_departure R net ev = Inr net'"
    and i: "py_index (stations net) (e_station_id ev) = Inr i"
    and q: "queue (stations net ! i) \<noteq> []"
    and st: "start_service (complete_service (stations net ! i) (current_time net)) (current_time net)
        = (Some k, st2)"
  from pd show "let d = fst (draw_exponential R (mean_service_time (stations net ! i)) (rng net))
       in total_service_time (stations net' ! i) = total_service_time (stations net ! i) + d
          \<and> current_time net' = current_time net
          \<and> (\<exists>a. event_queue net'
                 = heappush
                     (heappush (event_queue net)
                        \<lparr>time = current_time net + d, event_type = DEPARTURE,
                         e_job_id = k, e_station_id = e_station_id ev\<rparr>) a)"
  proof (cases rule: process_departure_cases)
    case (idle i' job next_station g')
    with i q show ?thesis by simp
  next
    case (blocked i' job st2' next_station g')
    with i st show ?thesis by simp
  next
    case (next_served i' job k' st2' d g1 next_job next_station g')
    with i st have [simp]: "i' = i" "k' = k" "st2' = st2" by simp_all
    have il: "i < length (stations net)" using i by (rule py_index_less)
    from next_served(5) have d: "draw_exponential R (mean_service_time st2) (rng net) = (d, g1)"
      by (auto simp: generate_service_time_def split: if_splits)
    from start_service_Some[OF st] start_service_total_service_time[OF st]
    have "mean_service_time st2 = mean_service_time (stations net ! i)"
      "total_service_time st2 = total_service_time (stations net ! i)" by simp_all
    with d il show ?thesis unfolding next_served(7) by (auto simp: Let_def)
  qed
next
  let ?R = "table_source (\<lambda>g. if g = 0 then 4 else 8) (\<lambda>g. 0)"
  have "case build ?R 2 [[1]] (Some 0) [(1, 1)] 0 (0::nat) of
          Inl e \<Rightarrow> False
        | Inr net0 \<Rightarrow>
            (case run_steps ?R 100 0 3 (net0, False, []) of
               Inl e \<Rightarrow> False
             | Inr (net, warmup_done, processed) \<Rightarrow>
                 utilization (stations net ! 0) = Some 3)"
    by (simp add: model_defs eval_nat_numeral)
  then obtain net0 net wd tr where
    b: "build ?R 2 [[1]] (Some 0) [(1, 1)] 0 (0::nat) = Inr net0"
    and r: "run_steps ?R 100 0 3 (net0, False, []) = Inr (net, wd, tr)"
    and u: "utilization (stations net ! 0) = Some 3"
    by (auto split: sum.splits prod.splits)
  have reach: "reachable ?R 100 0 net0 (net, wd, tr)"
    using reachable_run_steps[OF reachable.at_call r] .
  have "build ?R 2 [[1]] (Some 0) [(1, 1)] 0 (0::nat) = Inr net0
        \<and> reachable ?R 100 0 net0 (net, wd, tr)
        \<and> utilization (stations net ! 0) = Some 3 \<and> (1::real) < 3"
    using b reach u by simp
  then show "\<exists>(R :: nat random_source) n_jobs matrix seed specs initial_station g
         simulation_time warmup_time net0 net warmup_done processed u.
        build R n_jobs matrix seed specs initial_station g = Inr net0
        \<and> reachable R simulation_time warmup_time net0 (net, warmup_done, processed)
        \<and> utilization (stations net ! 0) = Some u \<and> 1 < u"
    by blast
qed

theorem utilization_exceeds_one_witness:
  "(\<exists>net'. process_arrival (table_source (\<lambda>g. 5) (\<lambda>g. 0))
               (example_network\<lparr>stations := [example_station\<lparr>queue := [], servers_busy := 0\<rparr>]\<rparr>)
               example_arrival = Inr net'
          \<and> total_service_time (stations net' ! 0) = 3 + 5
          \<and> current_time net' = 6
          \<and> map time (event_queue net') = [11, 12])
   \<and> (\<exists>net'. process_departure (table_source (\<lambda>g. 5) (\<lambda>g. 0))
               (example_network\<lparr>event_queue := [], current_time := 12\<rparr>)
               example_departure = Inr net'
          \<and> total_service_time (stations net' ! 0) = 3 + 5
          \<and> current_time net' = 12
          \<and> map time (event_queue net') = [12, 17])"
proof
  let ?R = "table_source (\<lambda>g. 5) (\<lambda>g. 0)"
  let ?net = "example_network\<lparr>stations := [example_station\<lparr>queue := [], servers_busy := 0\<rparr>]\<rparr>"
  have "case process_arrival ?R ?net example_arrival of
          Inl e \<Rightarrow> False
        | Inr net' \<Rightarrow> map time (event_queue net') = [11, 12]"
    by (simp add: model_defs example_network_def example_station_def example_arrival_def)
  then obtain net' where
    b: "process_arrival ?R ?net example_arrival = Inr net'"
    and q: "map time (event_queue net') = [11, 12]"
    by (auto split: sum.splits)
  have i: "py_index (stations ?net) (e_station_id example_arrival) = Inr 0"
    by (simp add: py_index_def example_arrival_def)
  have av: "is_available (stations ?net ! 0)"
    by (simp add: is_available_def example_station_def)
  from utilization_exceeds_one[THEN conjunct1, rule_format, OF b i av] b q
  show "\<exists>net'. process_arrival ?R ?net example_arrival = Inr net'
          \<and> total_service_time (stations net' ! 0) = 3 + 5
          \<and> current_time net' = 6
          \<and> map time (event_queue net') = [11, 12]"
    by (intro exI[of _ net'])
       (simp add: Let_def table_source_def example_network_def example_station_def)
next
  let ?R = "table_source (\<lambda>g. 5) (\<lambda>g. 0)"
  let ?net = "example_network\<lparr>event_queue := [], current_time := 12\<rparr>"
  have "case process_departure ?R ?net example_departure of
          Inl e \<Rightarrow> False
        | Inr net' \<Rightarrow> map time (event_queue net') = [12, 17]"
    by (simp add: model_defs example_network_def example_station_def example_departure_def)
  then obtain net' where
    b: "process_departure ?R ?net example_departure = Inr net'"
    and q: "map time (event_queue net') = [12, 17]"
    by (auto split: sum.splits)
  have i: "py_index (stations ?net) (e_station_id example_departure) = Inr 0"
    by (simp add: py_index_def example_departure_def example_network_def)
  have ne: "queue (stations ?net ! 0) \<noteq> []"
    by (simp add: example_network_def example_station_def)
  obtain st2 where st: "start_service (complete_service (stations ?net ! 0) (current_time ?net))
                          (current_time ?net) = (Some 7, st2)"
    by (simp add: start_service_def complete_service_def update_queue_stats_def is_available_def
                  Let_def example_network_def example_station_def)
  from utilization_exceeds_one[THEN conjunct2, THEN conjunct1, rule_format, OF b i ne st] b q
  show "\<exists>net'. process_departure ?R ?net example_departure = Inr net'
          \<and> total_service_time (stations net' ! 0) = 3 + 5
          \<and> current_time net' = 12
          \<and> map time (event_queue net') = [12, 17]"
    by (intro exI[of _ net'])
       (simp add: Let_def table_source_def example_network_def example_station_def)
qed

end
